theory Spec2Isabelle
  imports Main "HOL-Library.AList" "HOL-Library.Multiset" "HOL-Library.Product_Lexorder"
    "HOL-Library.Sublist"
begin

section \<open>Data model of app.py\<close>

text \<open>
  The three SQLAlchemy models become records. A table is the list of its rows in rowid
  order: the primary keys are SQLite \<open>INTEGER PRIMARY KEY\<close> columns, a new row gets
  the largest id of the table plus one and is stored after every other row, and a
  \<open>SELECT\<close> with no \<open>ORDER BY\<close> scans the table in that order.
  Strings are lists of bytes. The only nullable column whose absence the code handles
  itself is \<open>Offense.description\<close> (\<open>offense.description or 'No description'\<close>),
  so it is an option; every other column is filled from a validated form field by the
  routes that write it. The column \<open>section\<close> is the field \<open>section_fld\<close>.
\<close>

record user =
  u_id :: nat
  email :: string
  password_hash :: string

record student =
  s_id :: nat
  name :: string
  age :: int
  gender :: string
  grade_level :: string
  section_fld :: string
  strand :: string

record py_date =
  year :: nat
  month :: nat
  day :: nat

record offense =
  o_id :: nat
  student_id :: nat
  offense_type :: string
  category :: string
  subtype :: string
  date :: py_date
  description :: "string option"

record db =
  users :: "user list"
  students_tbl :: "student list"
  offenses_tbl :: "offense list"

datatype error = NotFoundError | DuplicateError | AuthenticationError | ValueError

definition empty_db :: db where
  "empty_db = \<lparr>users = [], students_tbl = [], offenses_tbl = []\<rparr>"

text \<open>\<open>Model.query.get_or_404(id)\<close>: the row with that primary key, or a 404.\<close>

definition get_student :: "db \<Rightarrow> nat \<Rightarrow> student option" where
  "get_student d i = find (\<lambda>s. s_id s = i) (students_tbl d)"

definition get_offense :: "db \<Rightarrow> nat \<Rightarrow> offense option" where
  "get_offense d i = find (\<lambda>x. o_id x = i) (offenses_tbl d)"

text \<open>The id SQLite gives to a row inserted into a table whose ids are \<open>ids\<close>.\<close>

definition next_id :: "nat list \<Rightarrow> nat" where
  "next_id ids = (if ids = [] then 1 else fold max ids 0 + 1)"

section \<open>Accounts\<close>

text \<open>
  \<open>generate_password_hash\<close> and \<open>check_password_hash\<close> are werkzeug's. The stored
  string is \<open>method$salt$digest\<close>; checking splits it at the first two \<open>$\<close> and
  recomputes the digest with the stored method and salt. The salt that werkzeug draws at
  random is an argument.

  werkzeug computes the digest with \<open>hashlib.scrypt\<close> or \<open>hashlib.pbkdf2_hmac\<close>
  (its default methods \<open>scrypt\<close> and \<open>pbkdf2:sha256\<close>). Both use the password only
  as the key of an HMAC, and HMAC (RFC 2104) prepares its key first: a key longer than
  the 64 bytes of a block is replaced by its hash, and the key is then filled with zero
  bytes up to 64. \<open>hmac_key\<close> is that step. What comes after it, and the hash of a long
  key, are parameters (\<open>kdf\<close> and \<open>key_hash\<close> of a \<open>hasher\<close>), as is the name of
  the method.
\<close>

record hasher =
  hash_method :: string
  key_hash :: "string \<Rightarrow> string"
  kdf :: "string \<Rightarrow> string \<Rightarrow> string \<Rightarrow> string"

definition hmac_key :: "hasher \<Rightarrow> string \<Rightarrow> string" where
  "hmac_key h password =
     (let k = (if 64 < length password then key_hash h password else password)
      in k @ replicate (64 - length k) (CHR 0x00))"

definition digest :: "hasher \<Rightarrow> string \<Rightarrow> string \<Rightarrow> string \<Rightarrow> string" where
  "digest h m salt password = kdf h m salt (hmac_key h password)"

definition generate_password_hash :: "hasher \<Rightarrow> string \<Rightarrow> string \<Rightarrow> string" where
  "generate_password_hash h salt password =
     hash_method h @ ''$'' @ salt @ ''$'' @ digest h (hash_method h) salt password"



definition set_password :: "hasher \<Rightarrow> string \<Rightarrow> string \<Rightarrow> user \<Rightarrow> user" where
  "set_password h salt password u = u\<lparr>password_hash := generate_password_hash h salt password\<rparr>"


text \<open>\<open>User.query.filter_by(email=e).first()\<close>\<close>

definition user_by_email :: "db \<Rightarrow> string \<Rightarrow> user option" where
  "user_by_email d e = find (\<lambda>u. email u = e) (users d)"

text \<open>
  Every route that reads a form is modelled on its \<open>form.validate_on_submit()\<close> branch, with
  the validated field data as argument; the other branch renders a template and touches
  nothing. \<open>register\<close> answers the store with the new account, or \<open>DuplicateError\<close>
  (the flash message \<open>Email already registered.\<close>).
\<close>

definition register :: "hasher \<Rightarrow> string \<Rightarrow> string \<Rightarrow> string \<Rightarrow> db \<Rightarrow> error + db" where
  "register h salt e password d =
     (case user_by_email d e of
        Some u \<Rightarrow> Inl DuplicateError
      | None \<Rightarrow>
          Inr (d\<lparr>users := users d @
                 [set_password h salt password
                    \<lparr>u_id = next_id (map u_id (users d)), email = e, password_hash = []\<rparr>]\<rparr>))"


section \<open>Students\<close>

record student_form =
  f_name :: string
  f_age :: int
  f_gender :: string
  f_grade_level :: string
  f_section :: string
  f_strand :: string

text \<open>\<open>students()\<close>: \<open>Student.query.all()\<close>.\<close>

definition students :: "db \<Rightarrow> student list" where
  "students d = students_tbl d"

definition add_student :: "student_form \<Rightarrow> db \<Rightarrow> db" where
  "add_student f d =
     d\<lparr>students_tbl := students_tbl d @
        [\<lparr>s_id = next_id (map s_id (students_tbl d)), name = f_name f, age = f_age f,
          gender = f_gender f, grade_level = f_grade_level f, section_fld = f_section f,
          strand = f_strand f\<rparr>]\<rparr>"

definition edit_student :: "nat \<Rightarrow> student_form \<Rightarrow> db \<Rightarrow> error + db" where
  "edit_student i f d =
     (case get_student d i of
        None \<Rightarrow> Inl NotFoundError
      | Some st \<Rightarrow>
          Inr (d\<lparr>students_tbl :=
                 map (\<lambda>s. if s_id s = s_id st
                          then s\<lparr>name := f_name f, age := f_age f, gender := f_gender f,
                                 grade_level := f_grade_level f, section_fld := f_section f,
                                 strand := f_strand f\<rparr>
                          else s)
                     (students_tbl d)\<rparr>))"

text \<open>
  \<open>delete_student(id)\<close> works in one session: the bulk delete of the student's offenses and
  the delete of the student change the session's transaction (\<open>working\<close>), and
  \<open>db.session.commit()\<close> makes them the stored state (\<open>committed\<close>), which is what any
  other request reads. \<open>delete_student_steps\<close> lists the session after each statement.
\<close>

record session =
  committed :: db
  working :: db

definition begin_session :: "db \<Rightarrow> session" where
  "begin_session d = \<lparr>committed = d, working = d\<rparr>"

definition bulk_delete_offenses :: "nat \<Rightarrow> session \<Rightarrow> session" where
  "bulk_delete_offenses i s =
     s\<lparr>working := (working s)\<lparr>offenses_tbl :=
          filter (\<lambda>x. student_id x \<noteq> i) (offenses_tbl (working s))\<rparr>\<rparr>"

definition session_delete_student :: "student \<Rightarrow> session \<Rightarrow> session" where
  "session_delete_student st s =
     s\<lparr>working := (working s)\<lparr>students_tbl :=
          filter (\<lambda>x. s_id x \<noteq> s_id st) (students_tbl (working s))\<rparr>\<rparr>"

definition commit :: "session \<Rightarrow> session" where
  "commit s = s\<lparr>committed := working s\<rparr>"

definition delete_student_steps :: "student \<Rightarrow> nat \<Rightarrow> db \<Rightarrow> session list" where
  "delete_student_steps st i d =
     (let s0 = begin_session d;
          s1 = bulk_delete_offenses i s0;
          s2 = session_delete_student st s1;
          s3 = commit s2
      in [s0, s1, s2, s3])"

definition delete_student :: "nat \<Rightarrow> db \<Rightarrow> error + db" where
  "delete_student i d =
     (case get_student d i of
        None \<Rightarrow> Inl NotFoundError
      | Some st \<Rightarrow> Inr (committed (last (delete_student_steps st i d))))"

section \<open>Offenses of a student\<close>

record offense_form =
  f_offense_type :: string
  f_category :: string
  f_subtype :: string
  f_date :: py_date
  f_description :: "string option"

text \<open>\<open>offenses(id)\<close>: 404 when the student does not exist, else the student and the
  rows of \<open>Offense.query.filter_by(student_id=id).all()\<close>.\<close>

definition offenses_of :: "db \<Rightarrow> nat \<Rightarrow> offense list" where
  "offenses_of d i = filter (\<lambda>x. student_id x = i) (offenses_tbl d)"

definition offenses :: "nat \<Rightarrow> db \<Rightarrow> error + (student \<times> offense list)" where
  "offenses i d =
     (case get_student d i of
        None \<Rightarrow> Inl NotFoundError
      | Some st \<Rightarrow> Inr (st, offenses_of d i))"

definition add_offense :: "nat \<Rightarrow> offense_form \<Rightarrow> db \<Rightarrow> error + db" where
  "add_offense i f d =
     (case get_student d i of
        None \<Rightarrow> Inl NotFoundError
      | Some st \<Rightarrow>
          Inr (d\<lparr>offenses_tbl := offenses_tbl d @
                 [\<lparr>o_id = next_id (map o_id (offenses_tbl d)), student_id = s_id st,
                   offense_type = f_offense_type f, category = f_category f,
                   subtype = f_subtype f, date = f_date f,
                   description = f_description f\<rparr>]\<rparr>))"

text \<open>
  \<open>delete_offense(id)\<close>: 404 when no offense has that id; otherwise the row is deleted,
  the session committed, and the browser is redirected to the offense list of the
  student the offense belonged to (the returned number).
\<close>

definition delete_offense :: "nat \<Rightarrow> db \<Rightarrow> error + (nat \<times> db)" where
  "delete_offense i d =
     (case get_offense d i of
        None \<Rightarrow> Inl NotFoundError
      | Some x \<Rightarrow>
          Inr (student_id x,
               d\<lparr>offenses_tbl := filter (\<lambda>y. o_id y \<noteq> o_id x) (offenses_tbl d)\<rparr>))"

section \<open>The store as a state machine\<close>

text \<open>
  The routes that write, as requests, and the states the application can bring an empty
  database to.
\<close>

datatype request =
    Register string string string
  | AddStudent student_form
  | EditStudent nat student_form
  | DeleteStudent nat
  | AddOffense nat offense_form
  | DeleteOffense nat

fun handle :: "hasher \<Rightarrow> request \<Rightarrow> db \<Rightarrow> error + db" where
  "handle h (Register salt e password) d = register h salt e password d"
| "handle h (AddStudent f) d = Inr (add_student f d)"
| "handle h (EditStudent i f) d = edit_student i f d"
| "handle h (DeleteStudent i) d = delete_student i d"
| "handle h (AddOffense i f) d = add_offense i f d"
| "handle h (DeleteOffense i) d = map_sum (\<lambda>e. e) snd (delete_offense i d)"

inductive reachable :: "hasher \<Rightarrow> db \<Rightarrow> bool" for h :: hasher where
  init: "reachable h empty_db"
| step: "reachable h d \<Longrightarrow> handle h r d = Inr d' \<Longrightarrow> reachable h d'"

text \<open>No offense refers to a student that is not stored.\<close>

definition ref_integrity :: "db \<Rightarrow> bool" where
  "ref_integrity d = (\<forall>x \<in> set (offenses_tbl d). student_id x \<in> s_id ` set (students_tbl d))"

text \<open>What every request keeps: ids ascend along each table, no two accounts share an
  email, and \<open>ref_integrity\<close>.\<close>

definition store_inv :: "db \<Rightarrow> bool" where
  "store_inv d =
     (sorted_wrt (<) (map s_id (students_tbl d))
      \<and> sorted_wrt (<) (map o_id (offenses_tbl d))
      \<and> sorted_wrt (<) (map u_id (users d))
      \<and> distinct (map email (users d))
      \<and> ref_integrity d)"

section \<open>Aggregates\<close>

text \<open>
  Both aggregate routes run \<open>SELECT k1, k2, count(offense.id) FROM student JOIN offense ON
  student.id = offense.student_id GROUP BY k1, k2\<close>. \<open>student_join_offense\<close> is the join,
  \<open>group_count\<close> the grouping: one row per distinct key with the number of joined rows
  that have it. SQL leaves the order of the groups open; here a group comes where its
  key occurs last in the join. A Python dict is an association list in insertion order,
  \<open>AList.update\<close> is the assignment \<open>data[k] = v\<close>.
\<close>

definition student_join_offense :: "db \<Rightarrow> (student \<times> offense) list" where
  "student_join_offense d =
     concat (map (\<lambda>s. map (\<lambda>x. (s, x)) (filter (\<lambda>x. s_id s = student_id x) (offenses_tbl d)))
                 (students_tbl d))"

definition group_count :: "'k list \<Rightarrow> ('k \<times> nat) list" where
  "group_count ks = map (\<lambda>k. (k, count_list ks k)) (remdups ks)"

type_synonym counts = "(string \<times> nat) list"

text \<open>The loop
  \<^verbatim>\<open>for grade, key, count in results:
      if grade not in data: data[grade] = defaults
      data[grade][key] = count\<close>\<close>

definition fill_row :: "counts \<Rightarrow> (string \<times> string) \<times> nat \<Rightarrow> (string \<times> counts) list
    \<Rightarrow> (string \<times> counts) list" where
  "fill_row defaults row data =
     (case row of ((grade, key), cnt) \<Rightarrow>
        (case map_of data grade of
           None \<Rightarrow> AList.update grade (AList.update key cnt defaults) data
         | Some c \<Rightarrow> AList.update grade (AList.update key cnt c) data))"

definition fill_counts :: "counts \<Rightarrow> ((string \<times> string) \<times> nat) list \<Rightarrow> (string \<times> counts) list" where
  "fill_counts defaults results = fold (fill_row defaults) results []"

definition type_grade_results :: "db \<Rightarrow> ((string \<times> string) \<times> nat) list" where
  "type_grade_results d =
     group_count (map (\<lambda>(s, x). (grade_level s, offense_type x)) (student_join_offense d))"

definition offenses_by_type_grade :: "db \<Rightarrow> (string \<times> counts) list" where
  "offenses_by_type_grade d =
     fill_counts [(''warning'', 0), (''minor'', 0), (''major'', 0)] (type_grade_results d)"

definition gender_grade_results :: "db \<Rightarrow> ((string \<times> string) \<times> nat) list" where
  "gender_grade_results d =
     group_count (map (\<lambda>(s, x). (grade_level s, gender s)) (student_join_offense d))"

definition offenses_by_gender_grade :: "db \<Rightarrow> (string \<times> counts) list" where
  "offenses_by_gender_grade d =
     fill_counts [(''Male'', 0), (''Female'', 0)] (gender_grade_results d)"

text \<open>The number of offenses of type \<open>t\<close> of students of grade \<open>g\<close>, and the number of
  offenses of students of grade \<open>g\<close> and gender \<open>x\<close>.\<close>

definition type_grade_count :: "db \<Rightarrow> string \<Rightarrow> string \<Rightarrow> nat" where
  "type_grade_count d g t =
     length (filter (\<lambda>(s, x). grade_level s = g \<and> offense_type x = t) (student_join_offense d))"

definition gender_grade_count :: "db \<Rightarrow> string \<Rightarrow> string \<Rightarrow> nat" where
  "gender_grade_count d g x =
     length (filter (\<lambda>(s, y). grade_level s = g \<and> gender s = x) (student_join_offense d))"

section \<open>Strings and dates\<close>

text \<open>
  The string functions act on ASCII as Python's do and leave every other byte alone.
  \<open>strftime_ymd\<close> is \<open>strftime('%Y-%m-%d')\<close> as CPython gives it on Linux, where the
  C library prints \<open>%Y\<close> as the year in decimal with no zeros before it, and \<open>%m\<close> and
  \<open>%d\<close> on two digits.
\<close>

definition lower_char :: "char \<Rightarrow> char" where
  "lower_char c =
     (if 65 \<le> (of_char c :: nat) \<and> (of_char c :: nat) \<le> 90 then char_of (of_char c + 32 :: nat) else c)"

definition upper_char :: "char \<Rightarrow> char" where
  "upper_char c =
     (if 97 \<le> (of_char c :: nat) \<and> (of_char c :: nat) \<le> 122 then char_of (of_char c - 32 :: nat) else c)"

definition lower :: "string \<Rightarrow> string" where
  "lower s = map lower_char s"

definition capitalize :: "string \<Rightarrow> string" where
  "capitalize s = (case s of [] \<Rightarrow> [] | c # cs \<Rightarrow> upper_char c # map lower_char cs)"

definition is_space :: "char \<Rightarrow> bool" where
  "is_space c = ((of_char c :: nat) \<in> {9, 10, 11, 12, 13, 28, 29, 30, 31, 32})"

definition strip :: "string \<Rightarrow> string" where
  "strip s = rev (dropWhile is_space (rev (dropWhile is_space s)))"

definition digit :: "nat \<Rightarrow> char" where
  "digit n = char_of (48 + n mod 10)"

text \<open>A number in decimal, and a string filled with zeros on the left to a width.\<close>

function dec :: "nat \<Rightarrow> string" where
  "dec n = (if n < 10 then [digit n] else dec (n div 10) @ [digit n])"
  by pat_completeness auto
termination
  by (relation "measure (\<lambda>n. n)") auto

declare dec.simps [simp del]

definition zfill :: "nat \<Rightarrow> string \<Rightarrow> string" where
  "zfill w s = replicate (w - length s) (CHR ''0'') @ s"

definition strftime_ymd :: "py_date \<Rightarrow> string" where
  "strftime_ymd dt =
     dec (year dt) @ ''-'' @ zfill 2 (dec (month dt)) @ ''-'' @ zfill 2 (dec (day dt))"

definition date_key :: "py_date \<Rightarrow> nat \<times> nat \<times> nat" where
  "date_key dt = (year dt, month dt, day dt)"

definition isleap :: "nat \<Rightarrow> bool" where
  "isleap y = (y mod 4 = 0 \<and> (y mod 100 \<noteq> 0 \<or> y mod 400 = 0))"

definition mdays :: "nat list" where
  "mdays = [0, 31, 28, 31, 30, 31, 30, 31, 31, 30, 31, 30, 31]"

text \<open>The second component of \<open>calendar.monthrange(y, m)\<close>, for \<open>1 \<le> m \<le> 12\<close>.\<close>

definition last_day_of :: "nat \<Rightarrow> nat \<Rightarrow> nat" where
  "last_day_of y m = mdays ! m + (if m = 2 \<and> isleap y then 1 else 0)"

definition month_names :: "string list" where
  "month_names = [Nil, ''January'', ''February'', ''March'', ''April'', ''May'', ''June'',
     ''July'', ''August'', ''September'', ''October'', ''November'', ''December'']"

section \<open>Calendar view\<close>

text \<open>
  \<open>calendar_view(id)\<close> with the query parameters \<open>year\<close> and \<open>month\<close> (\<open>None\<close> when the
  parameter is missing or is not an integer) and \<open>now\<close> for \<open>datetime.now()\<close>.
  \<open>datetime(year, month, 1)\<close> raises \<open>ValueError\<close> unless \<open>1 \<le> year \<le> 9999\<close>. The
  result is the template's context, without the week grid \<open>month_days\<close>, which
  \<open>calendar.monthcalendar\<close> computes from year and month alone.
\<close>

definition detail :: "offense \<Rightarrow> string" where
  "detail x =
     capitalize (offense_type x) @ '' - ''
     @ (case description x of
          None \<Rightarrow> ''No description''
        | Some t \<Rightarrow> if t = [] then ''No description'' else t)
     @ '' ('' @ strftime_ymd (date x) @ '')''"

text \<open>\<open>offense_dates[day].append(detail)\<close> on a \<open>defaultdict(list)\<close>.\<close>

definition append_detail :: "offense \<Rightarrow> (nat \<times> string list) list \<Rightarrow> (nat \<times> string list) list" where
  "append_detail x od =
     AList.update (day (date x))
       ((case map_of od (day (date x)) of None \<Rightarrow> [] | Some l \<Rightarrow> l) @ [detail x]) od"

definition month_offenses :: "db \<Rightarrow> nat \<Rightarrow> nat \<Rightarrow> nat \<Rightarrow> offense list" where
  "month_offenses d i y m =
     sort_key (\<lambda>x. date_key (date x))
       (filter (\<lambda>x. student_id x = i
                  \<and> date_key \<lparr>year = y, month = m, day = 1\<rparr> \<le> date_key (date x)
                  \<and> date_key (date x) \<le> date_key \<lparr>year = y, month = m, day = last_day_of y m\<rparr>)
          (offenses_tbl d))"

record calendar_page =
  cal_student :: student
  cal_year :: nat
  cal_month :: nat
  cal_month_name :: string
  offense_dates :: "(nat \<times> string list) list"
  prev_month :: nat
  prev_year :: nat
  next_month :: nat
  next_year :: nat

definition calendar_view :: "py_date \<Rightarrow> nat \<Rightarrow> int option \<Rightarrow> int option \<Rightarrow> db \<Rightarrow> error + calendar_page" where
  "calendar_view now i year_arg month_arg d =
     (case get_student d i of
        None \<Rightarrow> Inl NotFoundError
      | Some st \<Rightarrow>
          (let yr = (case year_arg of None \<Rightarrow> int (year now) | Some y \<Rightarrow> y);
               mo = (case month_arg of None \<Rightarrow> int (month now) | Some m \<Rightarrow> m);
               mo = (if mo < 1 \<or> mo > 12 then int (month now) else mo)
           in if yr < 1 \<or> yr > 9999 then Inl ValueError
              else
                (let y = nat yr; m = nat mo
                 in Inr \<lparr>cal_student = st, cal_year = y, cal_month = m,
                         cal_month_name = month_names ! m,
                         offense_dates = fold append_detail (month_offenses d i y m) [],
                         prev_month = (if m > 1 then m - 1 else 12),
                         prev_year = (if m > 1 then y else y - 1),
                         next_month = (if m < 12 then m + 1 else 1),
                         next_year = (if m < 12 then y else y + 1)\<rparr>)))"

section \<open>Search over all offenses\<close>

text \<open>
  SQL \<open>LIKE\<close> as SQLite evaluates it on ASCII text: \<open>%\<close> stands for any run of
  characters, \<open>_\<close> for any one character (here: one byte), every other character for
  itself, ASCII letters without regard to case; there is no escape character. \<open>ilike\<close> is what SQLAlchemy sends to SQLite for
  \<open>column.ilike(pattern)\<close>, that is \<open>lower(column) LIKE lower(pattern)\<close>; on a column
  that is \<open>NULL\<close> the comparison is not true.
\<close>

fun like :: "string \<Rightarrow> string \<Rightarrow> bool" where
  "like [] [] = True"
| "like [] (c # cs) = False"
| "like (p # ps) [] = (p = CHR ''%'' \<and> like ps [])"
| "like (p # ps) (c # cs) =
     (if p = CHR ''%'' then like ps (c # cs) \<or> like (p # ps) cs
      else (p = CHR ''_'' \<or> lower_char p = lower_char c) \<and> like ps cs)"

definition ilike :: "string \<Rightarrow> string \<Rightarrow> bool" where
  "ilike text pattern = like (lower pattern) (lower text)"

definition ilike_opt :: "string option \<Rightarrow> string \<Rightarrow> bool" where
  "ilike_opt text pattern = (case text of None \<Rightarrow> False | Some t \<Rightarrow> ilike t pattern)"

text \<open>\<open>Offense.query.join(Student)\<close>: each offense with the student it refers to.\<close>

definition offense_join_student :: "db \<Rightarrow> (offense \<times> student) list" where
  "offense_join_student d =
     concat (map (\<lambda>x. map (\<lambda>s. (x, s)) (filter (\<lambda>s. s_id s = student_id x) (students_tbl d)))
                 (offenses_tbl d))"

definition search_filter :: "string \<Rightarrow> offense \<times> student \<Rightarrow> bool" where
  "search_filter search row =
     (case row of (x, s) \<Rightarrow>
        ilike (name s) (''%'' @ search @ ''%'')
        \<or> ilike_opt (description x) (''%'' @ search @ ''%'')
        \<or> ilike (offense_type x) (''%'' @ search @ ''%''))"

text \<open>The rows of the query, \<open>ORDER BY offense.date DESC\<close>: the latest date first, and
  offenses of one date in the order of the join, as SQLite's sorter leaves them.\<close>

definition search_query :: "string \<Rightarrow> db \<Rightarrow> offense list" where
  "search_query search d =
     rev (sort_key (\<lambda>x. date_key (date x))
            (rev (map fst (if search \<noteq> [] then filter (search_filter search) (offense_join_student d)
                           else offense_join_student d))))"

text \<open>
  \<open>query.paginate(page=page, per_page=per_page, error_out=False)\<close> of Flask-SQLAlchemy: a
  page below 1 is page 1, the items are \<open>LIMIT per_page OFFSET (page - 1) * per_page\<close>.
\<close>

record 'a pagination =
  items :: "'a list"
  page :: nat
  per_page :: nat
  total :: nat

definition paginate :: "int \<Rightarrow> nat \<Rightarrow> 'a list \<Rightarrow> 'a pagination" where
  "paginate pg pp rows =
     (let p = (if pg < 1 then 1 else nat pg)
      in \<lparr>items = take pp (drop ((p - 1) * pp) rows), page = p, per_page = pp,
          total = length rows\<rparr>)"

text \<open>\<open>all_offenses()\<close> with the query parameters \<open>search\<close> and \<open>page\<close>; the result is the
  pagination and the search term the template shows.\<close>

definition all_offenses :: "string option \<Rightarrow> int option \<Rightarrow> db \<Rightarrow> offense pagination \<times> string" where
  "all_offenses search_arg page_arg d =
     (let search = strip (case search_arg of None \<Rightarrow> [] | Some t \<Rightarrow> t);
          pg = (case page_arg of None \<Rightarrow> 1 | Some p \<Rightarrow> p)
      in (paginate pg 20 (search_query search d), search))"

section \<open>The search as the specification words it\<close>

text \<open>
  The criterion of the specification for the search: the term is contained, without regard
  to the case of ASCII letters, in the student's name, the description or the offense type.
\<close>

definition contains_ci :: "string \<Rightarrow> string \<Rightarrow> bool" where
  "contains_ci term txt = sublist (lower term) (lower txt)"

definition spec_search_filter :: "string \<Rightarrow> offense \<times> student \<Rightarrow> bool" where
  "spec_search_filter term row =
     (case row of (x, s) \<Rightarrow>
        contains_ci term (name s)
        \<or> (case description x of None \<Rightarrow> False | Some t \<Rightarrow> contains_ci term t)
        \<or> contains_ci term (offense_type x))"

section \<open>A fixture\<close>

text \<open>Two students, of grade 11 and of grade 12; two warnings and a major offense of the
  first, a minor offense of the second.\<close>

definition ana :: student where
  "ana = \<lparr>s_id = 1, name = ''Ana Smith'', age = 16, gender = ''Female'', grade_level = ''11'',
          section_fld = ''A'', strand = ''STEM''\<rparr>"

definition ben :: student where
  "ben = \<lparr>s_id = 2, name = ''Ben Cruz'', age = 17, gender = ''Male'', grade_level = ''12'',
          section_fld = ''B'', strand = ''ABM''\<rparr>"

definition off1 :: offense where
  "off1 = \<lparr>o_id = 1, student_id = 1, offense_type = ''warning'', category = ''Uniform'',
           subtype = [], date = \<lparr>year = 2024, month = 3, day = 5\<rparr>,
           description = Some ''No necktie''\<rparr>"

definition off2 :: offense where
  "off2 = \<lparr>o_id = 2, student_id = 1, offense_type = ''warning'', category = ''Attendance'',
           subtype = [], date = \<lparr>year = 2024, month = 3, day = 5\<rparr>,
           description = Some []\<rparr>"

definition off3 :: offense where
  "off3 = \<lparr>o_id = 3, student_id = 1, offense_type = ''major'', category = ''Safety'',
           subtype = [], date = \<lparr>year = 2024, month = 3, day = 31\<rparr>,
           description = None\<rparr>"

definition off4 :: offense where
  "off4 = \<lparr>o_id = 4, student_id = 2, offense_type = ''minor'', category = ''Academic'',
           subtype = [], date = \<lparr>year = 2024, month = 4, day = 1\<rparr>,
           description = Some ''Late homework''\<rparr>"

definition fixture :: db where
  "fixture = \<lparr>users = [], students_tbl = [ana, ben], offenses_tbl = [off1, off2, off3, off4]\<rparr>"

text \<open>A store with an offense of the year 999, which the date field of the form accepts.\<close>

definition off_old :: offense where
  "off_old = \<lparr>o_id = 1, student_id = 1, offense_type = ''warning'', category = ''Uniform'',
              subtype = [], date = \<lparr>year = 999, month = 1, day = 5\<rparr>,
              description = Some ''Old entry''\<rparr>"

definition fixture_old :: db where
  "fixture_old = \<lparr>users = [], students_tbl = [ana], offenses_tbl = [off_old]\<rparr>"

section \<open>Examples\<close>

text \<open>A hasher to run examples with (its digest keeps eight characters of salt and key), and
  the requests that build the fixture from the empty store; \<open>run\<close> skips a request
  that fails.\<close>

definition short_hasher :: hasher where
  "short_hasher = \<lparr>hash_method = ''short'', key_hash = take 32,
                    kdf = (\<lambda>m salt key. take 8 (salt @ key))\<rparr>"

definition run :: "hasher \<Rightarrow> request list \<Rightarrow> db \<Rightarrow> db" where
  "run h rs d = fold (\<lambda>r s. case handle h r s of Inl e \<Rightarrow> s | Inr s' \<Rightarrow> s') rs d"

definition fixture_requests :: "request list" where
  "fixture_requests =
     [AddStudent \<lparr>f_name = ''Ana Smith'', f_age = 16, f_gender = ''Female'', f_grade_level = ''11'',
                  f_section = ''A'', f_strand = ''STEM''\<rparr>,
      AddStudent \<lparr>f_name = ''Ben Cruz'', f_age = 17, f_gender = ''Male'', f_grade_level = ''12'',
                  f_section = ''B'', f_strand = ''ABM''\<rparr>,
      AddOffense 1 \<lparr>f_offense_type = ''warning'', f_category = ''Uniform'', f_subtype = [],
                    f_date = \<lparr>year = 2024, month = 3, day = 5\<rparr>,
                    f_description = Some ''No necktie''\<rparr>,
      AddOffense 1 \<lparr>f_offense_type = ''warning'', f_category = ''Attendance'', f_subtype = [],
                    f_date = \<lparr>year = 2024, month = 3, day = 5\<rparr>, f_description = Some []\<rparr>,
      AddOffense 1 \<lparr>f_offense_type = ''major'', f_category = ''Safety'', f_subtype = [],
                    f_date = \<lparr>year = 2024, month = 3, day = 31\<rparr>, f_description = None\<rparr>,
      AddOffense 2 \<lparr>f_offense_type = ''minor'', f_category = ''Academic'', f_subtype = [],
                    f_date = \<lparr>year = 2024, month = 4, day = 1\<rparr>,
                    f_description = Some ''Late homework''\<rparr>]"

text \<open>The fixture with one more offense, whose type is none of the three the form offers.\<close>

definition off5 :: offense where
  "off5 = \<lparr>o_id = 5, student_id = 2, offense_type = ''severe'', category = ''Other'',
           subtype = [], date = \<lparr>year = 2024, month = 4, day = 2\<rparr>,
           description = Some ''Imported row''\<rparr>"

definition fixture_odd :: db where
  "fixture_odd = \<lparr>users = [], students_tbl = [ana, ben],
                   offenses_tbl = [off1, off2, off3, off4, off5]\<rparr>"

section \<open>Properties\<close>

lemma find_filter_neq: "find (\<lambda>x. f x = i) (filter (\<lambda>y. f y \<noteq> i) xs) = None"
  by (induction xs) auto

lemma get_offense_id: "get_offense d i = Some x \<Longrightarrow> o_id x = i"
  by (auto simp: get_offense_def find_Some_iff)

subsection \<open>The invariant of the store\<close>

lemma fold_max_acc: "(a::nat) \<le> fold max ids a"
proof (induction ids arbitrary: a)
  case Nil
  show ?case by simp
next
  case (Cons x xs)
  have "a \<le> max x a" by simp
  also have "\<dots> \<le> fold max xs (max x a)" by (rule Cons.IH)
  finally show ?case by simp
qed

lemma fold_max_ge: "x \<in> set ids \<Longrightarrow> (x::nat) \<le> fold max ids a"
proof (induction ids arbitrary: a)
  case Nil
  then show ?case by simp
next
  case (Cons y ys)
  show ?case
  proof (cases "x = y")
    case True
    have "x \<le> max y a" using True by simp
    also have "\<dots> \<le> fold max ys (max y a)" by (rule fold_max_acc)
    finally show ?thesis by simp
  next
    case False
    with Cons.prems have "x \<in> set ys" by simp
    then show ?thesis using Cons.IH by simp
  qed
qed

lemma next_id_greater: "x \<in> set ids \<Longrightarrow> x < next_id ids"
  using fold_max_ge [of x ids 0] by (auto simp: next_id_def)

lemma next_id_map_greater: "x \<in> set xs \<Longrightarrow> f x < next_id (map f xs)"
  by (rule next_id_greater) simp

lemma sorted_map_filter:
  "sorted_wrt (<) (map f xs) \<Longrightarrow> sorted_wrt (<) (map f (filter P xs))"
  by (simp add: sorted_wrt_map sorted_wrt_filter)

lemma get_student_id: "get_student d i = Some st \<Longrightarrow> s_id st = i \<and> st \<in> set (students_tbl d)"
  by (auto simp: get_student_def find_Some_iff)

lemma user_by_email_None: "user_by_email d e = None \<longleftrightarrow> e \<notin> email ` set (users d)"
  by (auto simp: user_by_email_def find_None_iff)

lemma register_inv:
  assumes "store_inv d" "register h salt e pw d = Inr d'"
  shows "store_inv d'"
proof -
  from assms(2) have n: "user_by_email d e = None"
    and d': "d' = d\<lparr>users := users d @ [\<lparr>u_id = next_id (map u_id (users d)), email = e,
        password_hash = generate_password_hash h salt pw\<rparr>]\<rparr>"
    by (auto simp: register_def set_password_def split: option.splits)
  from n have "e \<notin> email ` set (users d)" by (simp add: user_by_email_None)
  with assms(1) show ?thesis
    unfolding d' store_inv_def ref_integrity_def
    by (auto simp: sorted_wrt_append next_id_map_greater)
qed

lemma add_student_inv: "store_inv d \<Longrightarrow> store_inv (add_student f d)"
  unfolding store_inv_def ref_integrity_def add_student_def
  by (auto simp: sorted_wrt_append next_id_map_greater)

lemma edit_student_ids:
  "map s_id (map (\<lambda>s. if s_id s = k then s\<lparr>name := a, age := b, gender := c,
        grade_level := g, section_fld := e, strand := t\<rparr> else s) xs) = map s_id xs"
  by (induction xs) auto

lemma edit_student_inv:
  assumes "store_inv d" "edit_student i f d = Inr d'"
  shows "store_inv d'"
proof -
  from assms(2) obtain st where st: "get_student d i = Some st"
    by (cases "get_student d i") (auto simp: edit_student_def)
  with assms(2) have
    d': "d' = d\<lparr>students_tbl := map (\<lambda>s. if s_id s = s_id st
                          then s\<lparr>name := f_name f, age := f_age f, gender := f_gender f,
                                 grade_level := f_grade_level f, section_fld := f_section f,
                                 strand := f_strand f\<rparr>
                          else s) (students_tbl d)\<rparr>"
    by (auto simp: edit_student_def)
  have ids: "map s_id (students_tbl d') = map s_id (students_tbl d)"
    unfolding d' by (simp add: edit_student_ids)
  have "s_id ` set (students_tbl d') = s_id ` set (students_tbl d)"
    using arg_cong [OF ids, of set] by simp
  moreover have "offenses_tbl d' = offenses_tbl d" "users d' = users d" unfolding d' by simp_all
  ultimately show ?thesis using assms(1) ids unfolding store_inv_def ref_integrity_def by simp
qed

lemma delete_student_result:
  assumes "get_student d i = Some st"
  shows "delete_student i d =
           Inr (d\<lparr>offenses_tbl := filter (\<lambda>x. student_id x \<noteq> i) (offenses_tbl d),
                  students_tbl := filter (\<lambda>s. s_id s \<noteq> i) (students_tbl d)\<rparr>)"
  using assms get_student_id [OF assms]
  by (simp add: delete_student_def delete_student_steps_def begin_session_def
      bulk_delete_offenses_def session_delete_student_def commit_def)

lemma delete_student_inv:
  assumes "store_inv d" "delete_student i d = Inr d'"
  shows "store_inv d'"
proof -
  from assms(2) obtain st where st: "get_student d i = Some st"
    by (auto simp: delete_student_def split: option.splits)
  from delete_student_result [OF st] assms(2)
  have d': "d' = d\<lparr>offenses_tbl := filter (\<lambda>x. student_id x \<noteq> i) (offenses_tbl d),
                  students_tbl := filter (\<lambda>s. s_id s \<noteq> i) (students_tbl d)\<rparr>" by simp
  show ?thesis using assms(1) unfolding d' store_inv_def ref_integrity_def
    by (auto simp: sorted_map_filter)
qed

lemma add_offense_inv:
  assumes "store_inv d" "add_offense i f d = Inr d'"
  shows "store_inv d'"
proof -
  from assms(2) obtain st where st: "get_student d i = Some st"
    by (cases "get_student d i") (auto simp: add_offense_def)
  with assms(2) have d': "d' = d\<lparr>offenses_tbl := offenses_tbl d @
                 [\<lparr>o_id = next_id (map o_id (offenses_tbl d)), student_id = s_id st,
                   offense_type = f_offense_type f, category = f_category f,
                   subtype = f_subtype f, date = f_date f,
                   description = f_description f\<rparr>]\<rparr>"
    by (auto simp: add_offense_def)
  from get_student_id [OF st] have "s_id st \<in> s_id ` set (students_tbl d)" by auto
  with assms(1) show ?thesis unfolding d' store_inv_def ref_integrity_def
    by (auto simp: sorted_wrt_append next_id_map_greater)
qed

lemma delete_offense_inv:
  assumes "store_inv d" "delete_offense i d = Inr (k, d')"
  shows "store_inv d'"
proof -
  from assms(2) obtain x where x: "get_offense d i = Some x"
    by (cases "get_offense d i") (auto simp: delete_offense_def)
  with assms(2) have
    d': "d' = d\<lparr>offenses_tbl := filter (\<lambda>y. o_id y \<noteq> o_id x) (offenses_tbl d)\<rparr>"
    by (auto simp: delete_offense_def)
  show ?thesis using assms(1) unfolding d' store_inv_def ref_integrity_def
    by (auto simp: sorted_map_filter)
qed

lemma handle_inv: "store_inv d \<Longrightarrow> handle h r d = Inr d' \<Longrightarrow> store_inv d'"
proof (cases r)
  case (DeleteOffense i)
  assume a: "store_inv d" "handle h r d = Inr d'"
  then obtain k where "delete_offense i d = Inr (k, d')"
    using DeleteOffense by (cases "delete_offense i d") auto
  with a(1) show ?thesis by (rule delete_offense_inv)
qed (auto intro: register_inv add_student_inv edit_student_inv delete_student_inv add_offense_inv)

lemma reachable_inv: "reachable h d \<Longrightarrow> store_inv d"
proof (induction rule: reachable.induct)
  case init
  show ?case by (simp add: store_inv_def ref_integrity_def empty_db_def)
next
  case (step d r d')
  then show ?case by (auto intro: handle_inv)
qed

subsection \<open>Deleting an offense\<close>

text \<open>
  Claim C8. Deleting an offense that exists succeeds; a second \<open>delete_offense\<close> with the
  same id answers \<open>NotFoundError\<close>, which is a result without a store: the store after the
  second call is the store the first call left.
\<close>

theorem delete_offense_twice:
  assumes "get_offense d i = Some x"
  shows "\<exists>d'. delete_offense i d = Inr (student_id x, d')
           \<and> offenses_tbl d' = filter (\<lambda>y. o_id y \<noteq> i) (offenses_tbl d)
           \<and> students_tbl d' = students_tbl d \<and> users d' = users d
           \<and> get_offense d' i = None
           \<and> delete_offense i d' = Inl NotFoundError"
  using assms get_offense_id [OF assms]
  by (simp add: delete_offense_def get_offense_def find_filter_neq)

lemma reachable_run: "reachable h d \<Longrightarrow> reachable h (run h rs d)"
proof (induction rs arbitrary: d)
  case Nil
  then show ?case by (simp add: run_def)
next
  case (Cons r rs)
  show ?case
  proof (cases "handle h r d")
    case (Inl e)
    with Cons show ?thesis by (simp add: run_def)
  next
    case (Inr d')
    with Cons.prems have "reachable h d'" by (auto intro: reachable.step)
    from Cons.IH [OF this] Inr show ?thesis by (simp add: run_def)
  qed
qed

lemma fixture_run: "run h fixture_requests empty_db = fixture"
  by (simp add: run_def fixture_requests_def empty_db_def fixture_def add_student_def
      add_offense_def get_student_def next_id_def ana_def ben_def off1_def off2_def off3_def off4_def)

lemma reachable_fixture: "reachable h fixture"
  using reachable_run [OF reachable.init, of h fixture_requests] by (simp add: fixture_run)

theorem delete_offense_twice_witness:
  "get_offense fixture 1 = Some off1
   \<and> (\<exists>d'. delete_offense 1 fixture = Inr (student_id off1, d')
           \<and> offenses_tbl d' = filter (\<lambda>y. o_id y \<noteq> 1) (offenses_tbl fixture)
           \<and> students_tbl d' = students_tbl fixture \<and> users d' = users fixture
           \<and> get_offense d' 1 = None
           \<and> delete_offense 1 d' = Inl NotFoundError)"
proof -
  have h: "get_offense fixture 1 = Some off1"
    by (simp add: get_offense_def fixture_def off1_def)
  from delete_offense_twice [OF h] h show ?thesis by simp
qed

subsection \<open>The roster\<close>

lemma distinct_ids_find:
  fixes f :: "'a \<Rightarrow> nat"
  assumes "sorted_wrt (<) (map f xs)" "x \<in> set xs"
  shows "find (\<lambda>y. f y = f x) xs = Some x"
proof -
  from assms(1) have "distinct (map f xs)"
    by (simp add: strict_sorted_iff)
  then show ?thesis using assms(2)
    by (induction xs) auto
qed

text \<open>
  Claim C9. In every store the application can reach, \<open>students\<close> answers the rows of the
  student table in ascending id: a row is in the answer exactly when a lookup by its id finds
  it, and a student added next comes last, with an id above every other.
\<close>

theorem students_in_id_order:
  assumes "reachable h d"
  shows "sorted_wrt (<) (map s_id (students d))
       \<and> (\<forall>i st. get_student d i = Some st \<longleftrightarrow> st \<in> set (students d) \<and> s_id st = i)
       \<and> (\<forall>f. \<exists>st. students (add_student f d) = students d @ [st]
               \<and> (\<forall>s \<in> set (students d). s_id s < s_id st))"
proof -
  from reachable_inv [OF assms] have s: "sorted_wrt (<) (map s_id (students_tbl d))"
    by (simp add: store_inv_def)
  have "get_student d i = Some st \<longleftrightarrow> st \<in> set (students d) \<and> s_id st = i" for i st
    using distinct_ids_find [OF s, of st] get_student_id [of d i st]
    by (auto simp: students_def get_student_def)
  moreover have "\<exists>st. students (add_student f d) = students d @ [st]
               \<and> (\<forall>s \<in> set (students d). s_id s < s_id st)" for f
    by (simp add: students_def add_student_def next_id_map_greater)
  ultimately show ?thesis using s by (simp add: students_def)
qed

theorem students_in_id_order_witness:
  "reachable short_hasher fixture
   \<and> sorted_wrt (<) (map s_id (students fixture))
   \<and> students fixture = [ana, ben]
   \<and> (\<forall>i st. get_student fixture i = Some st \<longleftrightarrow> st \<in> set (students fixture) \<and> s_id st = i)
   \<and> (\<forall>f. \<exists>st. students (add_student f fixture) = [ana, ben, st]
           \<and> (\<forall>s \<in> set (students fixture). s_id s < s_id st))"
  using students_in_id_order [OF reachable_fixture [where h = short_hasher]]
    reachable_fixture [where h = short_hasher]
  by (simp add: students_def fixture_def)

subsection \<open>Deleting a student\<close>

lemma ref_integrity_delete:
  assumes "ref_integrity d"
  shows "ref_integrity (d\<lparr>offenses_tbl := filter (\<lambda>x. student_id x \<noteq> i) (offenses_tbl d),
                          students_tbl := filter (\<lambda>s. s_id s \<noteq> i) (students_tbl d)\<rparr>)"
  using assms unfolding ref_integrity_def by auto

lemma ref_integrity_bulk_delete:
  assumes "ref_integrity d"
  shows "ref_integrity (d\<lparr>offenses_tbl := filter (\<lambda>x. student_id x \<noteq> i) (offenses_tbl d)\<rparr>)"
  using assms unfolding ref_integrity_def by auto

text \<open>
  Claim C1, as the code has it. For a stored student and a store without dangling offenses,
  \<open>delete_student\<close> removes the student's offenses and then the student in one session and
  commits once: no offense with that \<open>student_id\<close> is left, every other row is kept,
  what is committed is the old store until the commit and the new store after it, and no
  state of the session, committed or not, holds an offense of a missing student. The route
  \<open>offenses\<close> then answers \<open>NotFoundError\<close> for that id, since it looks the student up
  first.
\<close>

theorem delete_student_cascade:
  assumes "get_student d i = Some st" and "ref_integrity d"
  shows "\<exists>d'. delete_student i d = Inr d'
           \<and> offenses_tbl d' = filter (\<lambda>x. student_id x \<noteq> i) (offenses_tbl d)
           \<and> students_tbl d' = filter (\<lambda>s. s_id s \<noteq> i) (students_tbl d)
           \<and> users d' = users d
           \<and> offenses_of d' i = []
           \<and> get_student d' i = None
           \<and> offenses i d' = Inl NotFoundError
           \<and> (\<forall>s \<in> set (delete_student_steps st i d).
                 ref_integrity (working s) \<and> ref_integrity (committed s)
                 \<and> (committed s = d \<or> committed s = d'))
           \<and> (\<exists>s0 s1 s2 s3. delete_student_steps st i d = [s0, s1, s2, s3]
                 \<and> offenses_of (working s1) i = [] \<and> get_student (working s1) i = Some st
                 \<and> get_student (working s2) i = None
                 \<and> committed s2 = d \<and> committed s3 = d')"
proof -
  define d1 where "d1 = d\<lparr>offenses_tbl := filter (\<lambda>x. student_id x \<noteq> i) (offenses_tbl d)\<rparr>"
  define d' where "d' = d\<lparr>offenses_tbl := filter (\<lambda>x. student_id x \<noteq> i) (offenses_tbl d),
                          students_tbl := filter (\<lambda>s. s_id s \<noteq> i) (students_tbl d)\<rparr>"
  have sid: "s_id st = i" using get_student_id [OF assms(1)] by simp
  have steps: "delete_student_steps st i d =
      [\<lparr>committed = d, working = d\<rparr>, \<lparr>committed = d, working = d1\<rparr>,
       \<lparr>committed = d, working = d'\<rparr>, \<lparr>committed = d', working = d'\<rparr>]"
    by (simp add: delete_student_steps_def begin_session_def bulk_delete_offenses_def
        session_delete_student_def commit_def d1_def d'_def sid)
  have res: "delete_student i d = Inr d'"
    using delete_student_result [OF assms(1)] by (simp add: d'_def)
  have r1: "ref_integrity d1" unfolding d1_def by (rule ref_integrity_bulk_delete [OF assms(2)])
  have r': "ref_integrity d'" unfolding d'_def by (rule ref_integrity_delete [OF assms(2)])
  have none: "get_student d' i = None"
    by (simp add: d'_def get_student_def find_filter_neq)
  have g1: "get_student d1 i = Some st" using assms(1) by (simp add: d1_def get_student_def)
  have o1: "offenses_of d1 i = []" by (simp add: d1_def offenses_of_def)
  have o': "offenses_of d' i = []" by (simp add: d'_def offenses_of_def)
  have l: "offenses i d' = Inl NotFoundError" by (simp add: offenses_def none)
  have tables: "offenses_tbl d' = filter (\<lambda>x. student_id x \<noteq> i) (offenses_tbl d)"
    "students_tbl d' = filter (\<lambda>s. s_id s \<noteq> i) (students_tbl d)" "users d' = users d"
    by (simp_all add: d'_def)
  have all: "\<forall>s \<in> set (delete_student_steps st i d).
                 ref_integrity (working s) \<and> ref_integrity (committed s)
                 \<and> (committed s = d \<or> committed s = d')"
    using assms(2) r1 r' by (simp add: steps)
  have ex: "\<exists>s0 s1 s2 s3. delete_student_steps st i d = [s0, s1, s2, s3]
                 \<and> offenses_of (working s1) i = [] \<and> get_student (working s1) i = Some st
                 \<and> get_student (working s2) i = None
                 \<and> committed s2 = d \<and> committed s3 = d'"
    using o1 g1 none by (simp add: steps)
  from res tables o' none l all ex show ?thesis by blast
qed

theorem delete_student_cascade_witness:
  "get_student fixture 1 = Some ana \<and> ref_integrity fixture
   \<and> (\<exists>d'. delete_student 1 fixture = Inr d'
           \<and> offenses_tbl d' = [off4] \<and> students_tbl d' = [ben]
           \<and> offenses_of d' 1 = []
           \<and> offenses 1 d' = Inl NotFoundError
           \<and> (\<forall>s \<in> set (delete_student_steps ana 1 fixture).
                 ref_integrity (working s) \<and> ref_integrity (committed s)
                 \<and> (committed s = fixture \<or> committed s = d')))"
proof -
  have g: "get_student fixture 1 = Some ana"
    by (simp add: get_student_def fixture_def ana_def)
  have r: "ref_integrity fixture"
    by (simp add: ref_integrity_def fixture_def ana_def ben_def off1_def off2_def off3_def off4_def)
  have f: "filter (\<lambda>x. student_id x \<noteq> 1) (offenses_tbl fixture) = [off4]"
    "filter (\<lambda>s. s_id s \<noteq> 1) (students_tbl fixture) = [ben]"
    by (simp_all add: fixture_def ana_def ben_def off1_def off2_def off3_def off4_def)
  from delete_student_cascade [OF g r] obtain d' where
    "delete_student 1 fixture = Inr d'"
    "offenses_tbl d' = filter (\<lambda>x. student_id x \<noteq> 1) (offenses_tbl fixture)"
    "students_tbl d' = filter (\<lambda>s. s_id s \<noteq> 1) (students_tbl fixture)"
    "offenses_of d' 1 = []" "offenses 1 d' = Inl NotFoundError"
    "\<forall>s \<in> set (delete_student_steps ana 1 fixture).
                 ref_integrity (working s) \<and> ref_integrity (committed s)
                 \<and> (committed s = fixture \<or> committed s = d')"
    by blast
  with g r f show ?thesis by auto
qed

text \<open>After \<open>delete_student\<close> the listing of the student's offenses is a 404, not an empty list.\<close>

theorem delete_student_listing_counterexample:
  "delete_student 1 fixture = Inr \<lparr>users = [], students_tbl = [ben], offenses_tbl = [off4]\<rparr>
   \<and> offenses 1 \<lparr>users = [], students_tbl = [ben], offenses_tbl = [off4]\<rparr> = Inl NotFoundError
   \<and> offenses 1 \<lparr>users = [], students_tbl = [ben], offenses_tbl = [off4]\<rparr> \<noteq> Inr (ana, [])"
  by (simp add: delete_student_def delete_student_steps_def begin_session_def
      bulk_delete_offenses_def session_delete_student_def commit_def offenses_def
      get_student_def fixture_def ana_def ben_def off1_def off2_def off3_def off4_def)

subsection \<open>Accounts\<close>

lemma find_snoc:
  "find P (xs @ [y]) = (case find P xs of None \<Rightarrow> (if P y then Some y else None) | Some x \<Rightarrow> Some x)"
  by (induction xs) auto



lemma register_registered:
  "user_by_email d e = Some u \<Longrightarrow> register h salt e pw d = Inl DuplicateError"
  by (simp add: register_def)

lemma register_new:
  assumes "register h salt e pw d = Inr d'"
  shows "user_by_email d e = None"
    and "d' = d\<lparr>users := users d @ [\<lparr>u_id = next_id (map u_id (users d)), email = e,
                 password_hash = generate_password_hash h salt pw\<rparr>]\<rparr>"
    and "user_by_email d' e = Some \<lparr>u_id = next_id (map u_id (users d)), email = e,
                 password_hash = generate_password_hash h salt pw\<rparr>"
proof -
  show n: "user_by_email d e = None" using assms
    by (cases "user_by_email d e") (simp_all add: register_def)
  show d': "d' = d\<lparr>users := users d @ [\<lparr>u_id = next_id (map u_id (users d)), email = e,
                 password_hash = generate_password_hash h salt pw\<rparr>]\<rparr>"
    using assms n by (simp add: register_def set_password_def)
  show "user_by_email d' e = Some \<lparr>u_id = next_id (map u_id (users d)), email = e,
                 password_hash = generate_password_hash h salt pw\<rparr>"
    using n unfolding d' user_by_email_def by (simp add: find_snoc)
qed



text \<open>
  What the store can show of claim C4. After a registration that succeeded, any further
  \<open>register\<close> with that email, whatever the password and the salt, answers
  \<open>DuplicateError\<close>, which carries no store: the one account with that email stays the
  only one, and it holds the email and \<open>method$salt$digest\<close>. That the digest cannot be
  turned back into the password is a property of werkzeug's key derivation, which is a
  parameter here.
\<close>

lemma register_duplicate:
  assumes "register h salt e pw d = Inr d'"
  shows "register h salt2 e pw2 d' = Inl DuplicateError
       \<and> users d' = users d @ [\<lparr>u_id = next_id (map u_id (users d)), email = e,
            password_hash = hash_method h @ ''$'' @ salt @ ''$'' @ digest h (hash_method h) salt pw\<rparr>]
       \<and> filter (\<lambda>u. email u = e) (users d') = [\<lparr>u_id = next_id (map u_id (users d)), email = e,
            password_hash = hash_method h @ ''$'' @ salt @ ''$'' @ digest h (hash_method h) salt pw\<rparr>]
       \<and> students_tbl d' = students_tbl d \<and> offenses_tbl d' = offenses_tbl d"
proof -
  note r = register_new [OF assms]
  from r(1) have "e \<notin> email ` set (users d)" by (simp add: user_by_email_None)
  then have "filter (\<lambda>u. email u = e) (users d) = []" by (auto simp: filter_empty_conv)
  moreover have "register h salt2 e pw2 d' = Inl DuplicateError"
    using r(3) by (rule register_registered)
  ultimately show ?thesis unfolding r(2) by (simp add: generate_password_hash_def)
qed




subsection \<open>The aggregates\<close>

lemma count_list_map: "count_list (map f xs) y = length (filter (\<lambda>x. f x = y) xs)"
  by (induction xs) auto

lemma count_list_pos: "0 < count_list xs y \<longleftrightarrow> y \<in> set xs"
  by (induction xs) auto

lemma map_of_group_count:
  "map_of (group_count ks) k = (if k \<in> set ks then Some (count_list ks k) else None)"
  by (simp add: group_count_def map_of_map_restrict restrict_map_def)

lemma distinct_group_count: "distinct (map fst (group_count ks))"
  by (simp add: group_count_def comp_def)

lemma keys_group_count: "fst ` set (group_count ks) = set ks"
  by (auto simp: group_count_def image_iff)

lemma map_of_rev_distinct:
  assumes "distinct (map fst xs)"
  shows "map_of (rev xs) k = map_of xs k"
proof (cases "map_of xs k")
  case None
  then have "k \<notin> fst ` set xs" by (simp add: map_of_eq_None_iff)
  then have "map_of (rev xs) k = None" by (simp add: map_of_eq_None_iff)
  with None show ?thesis by simp
next
  case (Some v)
  then have "(k, v) \<in> set (rev xs)" by (auto dest: map_of_SomeD)
  moreover have "distinct (map fst (rev xs))" using assms by (simp add: rev_map [symmetric])
  ultimately have "map_of (rev xs) k = Some v" by (simp add: map_of_eq_Some_iff)
  with Some show ?thesis by simp
qed

text \<open>What one round of the loop does to \<open>data[g]\<close>, read as a map.\<close>

lemma fill_row_lookup:
  "map_option map_of (map_of (fill_row df ((g0, k0), c0) data) g) =
     (if g = g0
      then Some ((case map_of data g0 of None \<Rightarrow> map_of df | Some c \<Rightarrow> map_of c)(k0 \<mapsto> c0))
      else map_option map_of (map_of data g))"
  by (cases "map_of data g0") (simp_all add: fill_row_def update_conv')

lemma fill_counts_snoc:
  "fill_counts df (rows @ [r]) = fill_row df r (fill_counts df rows)"
  by (simp add: fill_counts_def)

lemma fill_counts_lookup:
  "map_option map_of (map_of (fill_counts df rows) g) =
     (if g \<in> (\<lambda>r. fst (fst r)) ` set rows
      then Some (\<lambda>k. case map_of (rev rows) (g, k) of None \<Rightarrow> map_of df k | Some n \<Rightarrow> Some n)
      else None)"
proof (induction rows rule: rev_induct)
  case Nil
  show ?case by (simp add: fill_counts_def)
next
  case (snoc r rows)
  obtain g0 k0 c0 where r: "r = ((g0, k0), c0)" by (metis surj_pair)
  show ?case
  proof (cases "g = g0")
    case False
    then show ?thesis using snoc by (simp add: fill_counts_snoc r fill_row_lookup)
  next
    case True
    have "(case map_of (fill_counts df rows) g0 of None \<Rightarrow> map_of df | Some c \<Rightarrow> map_of c)
          = (\<lambda>k. case map_of (rev rows) (g0, k) of None \<Rightarrow> map_of df k | Some n \<Rightarrow> Some n)"
    proof (cases "g0 \<in> (\<lambda>r. fst (fst r)) ` set rows")
      case True
      with snoc [unfolded \<open>g = g0\<close>] show ?thesis
        by (cases "map_of (fill_counts df rows) g0") simp_all
    next
      case False
      then have "map_of (rev rows) (g0, k) = None" for k
        by (force simp: map_of_eq_None_iff image_iff)
      moreover from False snoc [unfolded \<open>g = g0\<close>]
      have "map_of (fill_counts df rows) g0 = None" by simp
      ultimately show ?thesis by simp
    qed
    then show ?thesis using True
      by (simp add: fill_counts_snoc r fill_row_lookup fun_eq_iff)
  qed
qed

lemma fill_counts_keys:
  "fst ` set (fill_counts df rows) = (\<lambda>r. fst (fst r)) ` set rows"
proof -
  have "g \<in> fst ` set (fill_counts df rows) \<longleftrightarrow> g \<in> (\<lambda>r. fst (fst r)) ` set rows" for g
  proof -
    have "g \<in> fst ` set (fill_counts df rows) \<longleftrightarrow> map_of (fill_counts df rows) g \<noteq> None"
      by (simp add: map_of_eq_None_iff)
    also have "\<dots> \<longleftrightarrow> map_option map_of (map_of (fill_counts df rows) g) \<noteq> None"
      by simp
    also have "\<dots> \<longleftrightarrow> g \<in> (\<lambda>r. fst (fst r)) ` set rows"
      unfolding fill_counts_lookup by simp
    finally show ?thesis .
  qed
  then show ?thesis by blast
qed

lemma update_member:
  "(a, b) \<in> set (AList.update k v al) \<Longrightarrow> b = v \<or> (a, b) \<in> set al"
  by (induction al) (auto split: if_splits)

lemma fill_row_distinct:
  assumes "distinct (map fst data)" "\<forall>(g, c) \<in> set data. distinct (map fst c)"
    "distinct (map fst df)"
  shows "distinct (map fst (fill_row df r data))
       \<and> (\<forall>(g, c) \<in> set (fill_row df r data). distinct (map fst c))"
proof -
  obtain g0 k0 c0 where r: "r = ((g0, k0), c0)" by (metis surj_pair)
  show ?thesis
  proof (cases "map_of data g0")
    case None
    have "distinct (map fst c)"
      if "(g, c) \<in> set (AList.update g0 (AList.update k0 c0 df) data)" for g c
      using update_member [OF that] assms(2,3) by (auto simp: distinct_update)
    then show ?thesis using assms(1) None by (auto simp: r fill_row_def distinct_update)
  next
    case (Some c1)
    then have "(g0, c1) \<in> set data" by (rule map_of_SomeD)
    with assms(2) have c1: "distinct (map fst c1)" by blast
    have "distinct (map fst c)"
      if "(g, c) \<in> set (AList.update g0 (AList.update k0 c0 c1) data)" for g c
      using update_member [OF that] assms(2) c1 by (auto simp: distinct_update)
    then show ?thesis using assms(1) Some by (auto simp: r fill_row_def distinct_update)
  qed
qed

lemma fill_counts_distinct:
  assumes "distinct (map fst df)"
  shows "distinct (map fst (fill_counts df rows))
       \<and> (\<forall>(g, c) \<in> set (fill_counts df rows). distinct (map fst c))"
proof (induction rows rule: rev_induct)
  case Nil
  show ?case by (simp add: fill_counts_def)
next
  case (snoc r rows)
  then have "distinct (map fst (fill_counts df rows))"
    and "\<forall>(g, c) \<in> set (fill_counts df rows). distinct (map fst c)" by simp_all
  from fill_row_distinct [OF this assms, of r] show ?case
    by (simp add: fill_counts_snoc)
qed

lemma join_member:
  "(s, x) \<in> set (student_join_offense d)
   \<longleftrightarrow> s \<in> set (students_tbl d) \<and> x \<in> set (offenses_tbl d) \<and> s_id s = student_id x"
  by (auto simp: student_join_offense_def)

lemma type_grade_results_lookup:
  "map_of (rev (type_grade_results d)) (g, t) =
     (if 0 < type_grade_count d g t then Some (type_grade_count d g t) else None)"
proof -
  let ?ks = "map (\<lambda>(s, x). (grade_level s, offense_type x)) (student_join_offense d)"
  have c: "count_list ?ks (g, t) = type_grade_count d g t"
    by (simp add: count_list_map type_grade_count_def case_prod_unfold)
  have "map_of (rev (type_grade_results d)) (g, t) = map_of (type_grade_results d) (g, t)"
    unfolding type_grade_results_def by (rule map_of_rev_distinct [OF distinct_group_count])
  also have "\<dots> = (if (g, t) \<in> set ?ks then Some (count_list ?ks (g, t)) else None)"
    unfolding type_grade_results_def by (rule map_of_group_count)
  finally show ?thesis using count_list_pos [of ?ks "(g, t)"] by (simp add: c)
qed

lemma gender_grade_results_lookup:
  "map_of (rev (gender_grade_results d)) (g, t) =
     (if 0 < gender_grade_count d g t then Some (gender_grade_count d g t) else None)"
proof -
  let ?ks = "map (\<lambda>(s, x). (grade_level s, gender s)) (student_join_offense d)"
  have c: "count_list ?ks (g, t) = gender_grade_count d g t"
    by (simp add: count_list_map gender_grade_count_def case_prod_unfold)
  have "map_of (rev (gender_grade_results d)) (g, t) = map_of (gender_grade_results d) (g, t)"
    unfolding gender_grade_results_def by (rule map_of_rev_distinct [OF distinct_group_count])
  also have "\<dots> = (if (g, t) \<in> set ?ks then Some (count_list ?ks (g, t)) else None)"
    unfolding gender_grade_results_def by (rule map_of_group_count)
  finally show ?thesis using count_list_pos [of ?ks "(g, t)"] by (simp add: c)
qed

lemma group_grades:
  "(\<lambda>r. fst (fst r)) ` set (group_count (map f xs)) = (\<lambda>x. fst (f x)) ` set xs"
proof -
  have "(\<lambda>r. fst (fst r)) ` set (group_count (map f xs)) = fst ` fst ` set (group_count (map f xs))"
    by (simp add: image_image)
  also have "\<dots> = fst ` set (map f xs)" by (simp only: keys_group_count)
  also have "\<dots> = (\<lambda>x. fst (f x)) ` set xs" by (simp add: image_image)
  finally show ?thesis .
qed

lemma join_grades:
  "g \<in> (\<lambda>p. grade_level (fst p)) ` set (student_join_offense d)
   \<longleftrightarrow> (\<exists>s \<in> set (students_tbl d). \<exists>x \<in> set (offenses_tbl d).
          s_id s = student_id x \<and> grade_level s = g)"
proof
  assume "g \<in> (\<lambda>p. grade_level (fst p)) ` set (student_join_offense d)"
  then obtain s x where "(s, x) \<in> set (student_join_offense d)" "g = grade_level s" by auto
  then show "\<exists>s \<in> set (students_tbl d). \<exists>x \<in> set (offenses_tbl d).
          s_id s = student_id x \<and> grade_level s = g"
    unfolding join_member by blast
next
  assume "\<exists>s \<in> set (students_tbl d). \<exists>x \<in> set (offenses_tbl d).
          s_id s = student_id x \<and> grade_level s = g"
  then obtain s x where "(s, x) \<in> set (student_join_offense d)" "grade_level s = g"
    unfolding join_member by blast
  then have "grade_level (fst (s, x)) = g" by simp
  with \<open>(s, x) \<in> set (student_join_offense d)\<close>
  show "g \<in> (\<lambda>p. grade_level (fst p)) ` set (student_join_offense d)" by (metis imageI)
qed

lemma type_grade_keys:
  "g \<in> (\<lambda>r. fst (fst r)) ` set (type_grade_results d)
   \<longleftrightarrow> (\<exists>s \<in> set (students_tbl d). \<exists>x \<in> set (offenses_tbl d).
          s_id s = student_id x \<and> grade_level s = g)"
  unfolding type_grade_results_def group_grades
  using join_grades [of g d] by (simp add: case_prod_unfold)

lemma gender_grade_keys:
  "g \<in> (\<lambda>r. fst (fst r)) ` set (gender_grade_results d)
   \<longleftrightarrow> (\<exists>s \<in> set (students_tbl d). \<exists>x \<in> set (offenses_tbl d).
          s_id s = student_id x \<and> grade_level s = g)"
  unfolding gender_grade_results_def group_grades
  using join_grades [of g d] by (simp add: case_prod_unfold)

lemma offenses_by_type_grade_lookup:
  "map_option map_of (map_of (offenses_by_type_grade d) g) =
     (if \<exists>s \<in> set (students_tbl d). \<exists>x \<in> set (offenses_tbl d).
            s_id s = student_id x \<and> grade_level s = g
      then Some (\<lambda>t. if 0 < type_grade_count d g t then Some (type_grade_count d g t)
                      else map_of [(''warning'', 0), (''minor'', 0), (''major'', 0)] t)
      else None)"
  unfolding offenses_by_type_grade_def fill_counts_lookup type_grade_keys
    type_grade_results_lookup
  by (simp add: fun_eq_iff)

lemma offenses_by_gender_grade_lookup:
  "map_option map_of (map_of (offenses_by_gender_grade d) g) =
     (if \<exists>s \<in> set (students_tbl d). \<exists>x \<in> set (offenses_tbl d).
            s_id s = student_id x \<and> grade_level s = g
      then Some (\<lambda>t. if 0 < gender_grade_count d g t then Some (gender_grade_count d g t)
                      else map_of [(''Male'', 0), (''Female'', 0)] t)
      else None)"
  unfolding offenses_by_gender_grade_def fill_counts_lookup gender_grade_keys
    gender_grade_results_lookup
  by (simp add: fun_eq_iff)

lemma type_counts_of_grade:
  assumes "map_of (offenses_by_type_grade d) g = Some c"
  shows "map_of c t =
           (if t \<in> {''warning'', ''minor'', ''major''} \<or> 0 < type_grade_count d g t
            then Some (type_grade_count d g t) else None)"
proof -
  from assms have "map_option map_of (map_of (offenses_by_type_grade d) g) = Some (map_of c)"
    by simp
  then have "map_of c = (\<lambda>t. if 0 < type_grade_count d g t then Some (type_grade_count d g t)
                      else map_of [(''warning'', 0), (''minor'', 0), (''major'', 0)] t)"
    unfolding offenses_by_type_grade_lookup by (simp split: if_splits)
  then show ?thesis by auto
qed

lemma gender_counts_of_grade:
  assumes "map_of (offenses_by_gender_grade d) g = Some c"
  shows "map_of c t =
           (if t \<in> {''Male'', ''Female''} \<or> 0 < gender_grade_count d g t
            then Some (gender_grade_count d g t) else None)"
proof -
  from assms have "map_option map_of (map_of (offenses_by_gender_grade d) g) = Some (map_of c)"
    by simp
  then have "map_of c = (\<lambda>t. if 0 < gender_grade_count d g t then Some (gender_grade_count d g t)
                      else map_of [(''Male'', 0), (''Female'', 0)] t)"
    unfolding offenses_by_gender_grade_lookup by (simp split: if_splits)
  then show ?thesis by auto
qed

lemma type_grade_keys_iff:
  "g \<in> fst ` set (offenses_by_type_grade d)
   \<longleftrightarrow> (\<exists>s \<in> set (students_tbl d). \<exists>x \<in> set (offenses_tbl d).
          s_id s = student_id x \<and> grade_level s = g)"
  unfolding offenses_by_type_grade_def fill_counts_keys by (rule type_grade_keys)

lemma gender_grade_keys_iff:
  "g \<in> fst ` set (offenses_by_gender_grade d)
   \<longleftrightarrow> (\<exists>s \<in> set (students_tbl d). \<exists>x \<in> set (offenses_tbl d).
          s_id s = student_id x \<and> grade_level s = g)"
  unfolding offenses_by_gender_grade_def fill_counts_keys by (rule gender_grade_keys)

lemma type_grade_count_pos:
  "0 < type_grade_count d g t \<Longrightarrow>
     \<exists>s \<in> set (students_tbl d). \<exists>x \<in> set (offenses_tbl d). s_id s = student_id x \<and> grade_level s = g"
proof -
  assume "0 < type_grade_count d g t"
  then have "filter (\<lambda>(s, x). grade_level s = g \<and> offense_type x = t) (student_join_offense d) \<noteq> []"
    by (simp add: type_grade_count_def)
  then obtain s x where "(s, x) \<in> set (student_join_offense d)" "grade_level s = g"
    by (auto simp: filter_empty_conv)
  then show ?thesis unfolding join_member by blast
qed

lemma gender_grade_count_pos:
  "0 < gender_grade_count d g t \<Longrightarrow>
     \<exists>s \<in> set (students_tbl d). \<exists>x \<in> set (offenses_tbl d). s_id s = student_id x \<and> grade_level s = g"
proof -
  assume "0 < gender_grade_count d g t"
  then have "filter (\<lambda>(s, x). grade_level s = g \<and> gender s = t) (student_join_offense d) \<noteq> []"
    by (simp add: gender_grade_count_def)
  then obtain s x where "(s, x) \<in> set (student_join_offense d)" "grade_level s = g"
    by (auto simp: filter_empty_conv)
  then show ?thesis unfolding join_member by blast
qed

lemma type_grade_present:
  "(\<exists>s \<in> set (students_tbl d). \<exists>x \<in> set (offenses_tbl d).
        s_id s = student_id x \<and> grade_level s = g)
   \<longleftrightarrow> (\<exists>t. 0 < type_grade_count d g t)"
proof
  assume "\<exists>s \<in> set (students_tbl d). \<exists>x \<in> set (offenses_tbl d).
        s_id s = student_id x \<and> grade_level s = g"
  then obtain s x where m: "(s, x) \<in> set (student_join_offense d)" and g: "grade_level s = g"
    unfolding join_member by blast
  then have "(s, x) \<in> set (filter (\<lambda>(s, y). grade_level s = g \<and> offense_type y = offense_type x)
                 (student_join_offense d))" by simp
  then have "filter (\<lambda>(s, y). grade_level s = g \<and> offense_type y = offense_type x)
                 (student_join_offense d) \<noteq> []"
    by (metis empty_iff empty_set)
  then have "0 < type_grade_count d g (offense_type x)"
    by (simp add: type_grade_count_def)
  then show "\<exists>t. 0 < type_grade_count d g t" ..
next
  assume "\<exists>t. 0 < type_grade_count d g t"
  then show "\<exists>s \<in> set (students_tbl d). \<exists>x \<in> set (offenses_tbl d).
        s_id s = student_id x \<and> grade_level s = g"
    using type_grade_count_pos by blast
qed

lemma type_grade_fixture_shape:
  assumes "type_grade_count d ''11'' ''warning'' = 2" "type_grade_count d ''11'' ''major'' = 1"
    "type_grade_count d ''12'' ''minor'' = 1"
    "\<forall>g t. (g, t) \<notin> {(''11'', ''warning''), (''11'', ''major''), (''12'', ''minor'')}
        \<longrightarrow> type_grade_count d g t = 0"
  shows "map_option map_of (map_of (offenses_by_type_grade d) g) =
         map_option map_of
           (map_of [(''11'', [(''warning'', 2), (''minor'', 0), (''major'', 1)]),
                    (''12'', [(''warning'', 0), (''minor'', 1), (''major'', 0)])] g)"
proof -
  have z: "type_grade_count d g' t = 0"
    if "(g', t) \<notin> {(''11'', ''warning''), (''11'', ''major''), (''12'', ''minor'')}" for g' t
    using assms(4) that by blast
  have l: "map_option map_of (map_of (offenses_by_type_grade d) g') =
       Some (\<lambda>t. if 0 < type_grade_count d g' t then Some (type_grade_count d g' t)
                 else map_of [(''warning'', 0), (''minor'', 0), (''major'', 0)] t)"
    if "0 < type_grade_count d g' t'" for g' t'
  proof -
    from that have "\<exists>t. 0 < type_grade_count d g' t" ..
    then show ?thesis unfolding offenses_by_type_grade_lookup type_grade_present
      by (simp only: if_True)
  qed
  consider "g = ''11''" | "g = ''12''" | "g \<noteq> ''11''" "g \<noteq> ''12''" by blast
  then show ?thesis
  proof cases
    case 1
    have "(if 0 < type_grade_count d ''11'' t then Some (type_grade_count d ''11'' t)
           else map_of [(''warning'', 0), (''minor'', 0), (''major'', 0)] t)
          = map_of [(''warning'', 2), (''minor'', 0), (''major'', 1)] t" for t
      using assms(1,2) z [of "''11''" t] by auto
    then have e: "(\<lambda>t. if 0 < type_grade_count d ''11'' t then Some (type_grade_count d ''11'' t)
           else map_of [(''warning'', 0), (''minor'', 0), (''major'', 0)] t)
          = map_of [(''warning'', 2), (''minor'', 0), (''major'', 1)]" by (rule ext)
    have r: "map_option map_of
           (map_of [(''11'', [(''warning'', 2), (''minor'', 0), (''major'', 1)]),
                    (''12'', [(''warning'', 0), (''minor'', 1), (''major'', 0)])] ''11'')
          = Some (map_of [(''warning'', 2), (''minor'', 0), (''major'', 1)])"
      by simp
    have "0 < type_grade_count d ''11'' ''warning''" using assms(1) by simp
    from l [OF this] show ?thesis unfolding 1 e r .
  next
    case 2
    have "(if 0 < type_grade_count d ''12'' t then Some (type_grade_count d ''12'' t)
           else map_of [(''warning'', 0), (''minor'', 0), (''major'', 0)] t)
          = map_of [(''warning'', 0), (''minor'', 1), (''major'', 0)] t" for t
      using assms(3) z [of "''12''" t] by auto
    then have e: "(\<lambda>t. if 0 < type_grade_count d ''12'' t then Some (type_grade_count d ''12'' t)
           else map_of [(''warning'', 0), (''minor'', 0), (''major'', 0)] t)
          = map_of [(''warning'', 0), (''minor'', 1), (''major'', 0)]" by (rule ext)
    have r: "map_option map_of
           (map_of [(''11'', [(''warning'', 2), (''minor'', 0), (''major'', 1)]),
                    (''12'', [(''warning'', 0), (''minor'', 1), (''major'', 0)])] ''12'')
          = Some (map_of [(''warning'', 0), (''minor'', 1), (''major'', 0)])"
      by simp
    have "0 < type_grade_count d ''12'' ''minor''" using assms(3) by simp
    from l [OF this] show ?thesis unfolding 2 e r .
  next
    case 3
    then have "type_grade_count d g t = 0" for t using z [of g t] by simp
    then have "\<not> (\<exists>t. 0 < type_grade_count d g t)" by simp
    then show ?thesis
      unfolding offenses_by_type_grade_lookup type_grade_present using 3 by simp
  qed
qed

lemma fixture_type_counts:
  "type_grade_count fixture g t =
     (if (g, t) = (''11'', ''warning'') then 2
      else if (g, t) = (''11'', ''major'') then 1
      else if (g, t) = (''12'', ''minor'') then 1 else 0)"
  by (simp add: type_grade_count_def student_join_offense_def fixture_def ana_def ben_def
      off1_def off2_def off3_def off4_def)

text \<open>
  Claim C2. The answer of \<open>offenses_by_type_grade\<close> is a dictionary (no key twice, at either
  level) from grades to counts per offense type: the count under grade \<open>g\<close> and type \<open>t\<close> is
  the number of offenses of type \<open>t\<close> joined to a student of grade \<open>g\<close>, the keys
  \<open>warning\<close>, \<open>minor\<close> and \<open>major\<close> are there for every grade of the answer, with 0 when
  the grade has no such offense, and no other key is there without an offense. On every
  store with two warnings and a major offense for grade 11, a minor offense for grade 12 and
  no other offense, the answer reads as the dictionary of the specification, and on the
  fixture it is that dictionary.
\<close>

theorem offenses_by_type_grade_counts:
  "(\<forall>g c. map_of (offenses_by_type_grade d) g = Some c \<longrightarrow>
       (\<forall>t. map_of c t =
          (if t \<in> {''warning'', ''minor'', ''major''} \<or> 0 < type_grade_count d g t
           then Some (type_grade_count d g t) else None)))
   \<and> distinct (map fst (offenses_by_type_grade d))
   \<and> (\<forall>(g, c) \<in> set (offenses_by_type_grade d). distinct (map fst c))
   \<and> (type_grade_count d ''11'' ''warning'' = 2 \<and> type_grade_count d ''11'' ''major'' = 1
        \<and> type_grade_count d ''12'' ''minor'' = 1
        \<and> (\<forall>g t. (g, t) \<notin> {(''11'', ''warning''), (''11'', ''major''), (''12'', ''minor'')}
               \<longrightarrow> type_grade_count d g t = 0)
      \<longrightarrow> (\<forall>g. map_option map_of (map_of (offenses_by_type_grade d) g) =
               map_option map_of
                 (map_of [(''11'', [(''warning'', 2), (''minor'', 0), (''major'', 1)]),
                          (''12'', [(''warning'', 0), (''minor'', 1), (''major'', 0)])] g)))
   \<and> offenses_by_type_grade fixture =
       [(''11'', [(''warning'', 2), (''minor'', 0), (''major'', 1)]),
        (''12'', [(''warning'', 0), (''minor'', 1), (''major'', 0)])]"
proof -
  have a: "\<forall>g c. map_of (offenses_by_type_grade d) g = Some c \<longrightarrow>
       (\<forall>t. map_of c t =
          (if t \<in> {''warning'', ''minor'', ''major''} \<or> 0 < type_grade_count d g t
           then Some (type_grade_count d g t) else None))"
    using type_counts_of_grade by blast
  have b: "distinct (map fst (offenses_by_type_grade d))
     \<and> (\<forall>(g, c) \<in> set (offenses_by_type_grade d). distinct (map fst c))"
    unfolding offenses_by_type_grade_def by (rule fill_counts_distinct) simp
  have c: "offenses_by_type_grade fixture =
       [(''11'', [(''warning'', 2), (''minor'', 0), (''major'', 1)]),
        (''12'', [(''warning'', 0), (''minor'', 1), (''major'', 0)])]"
    by code_simp
  have e: "type_grade_count d ''11'' ''warning'' = 2 \<and> type_grade_count d ''11'' ''major'' = 1
        \<and> type_grade_count d ''12'' ''minor'' = 1
        \<and> (\<forall>g t. (g, t) \<notin> {(''11'', ''warning''), (''11'', ''major''), (''12'', ''minor'')}
               \<longrightarrow> type_grade_count d g t = 0)
      \<longrightarrow> (\<forall>g. map_option map_of (map_of (offenses_by_type_grade d) g) =
               map_option map_of
                 (map_of [(''11'', [(''warning'', 2), (''minor'', 0), (''major'', 1)]),
                          (''12'', [(''warning'', 0), (''minor'', 1), (''major'', 0)])] g))"
    using type_grade_fixture_shape [of d] by blast
  from a b c e show ?thesis by blast
qed

theorem offenses_by_type_grade_counts_witness:
  "map_of (offenses_by_type_grade fixture) ''11''
     = Some [(''warning'', 2), (''minor'', 0), (''major'', 1)]
   \<and> type_grade_count fixture ''11'' ''warning'' = 2
   \<and> type_grade_count fixture ''11'' ''minor'' = 0
   \<and> type_grade_count fixture ''11'' ''major'' = 1
   \<and> type_grade_count fixture ''12'' ''minor'' = 1
   \<and> type_grade_count fixture ''12'' ''warning'' = 0
   \<and> (\<forall>g. map_option map_of (map_of (offenses_by_type_grade fixture) g) =
          map_option map_of
            (map_of [(''11'', [(''warning'', 2), (''minor'', 0), (''major'', 1)]),
                     (''12'', [(''warning'', 0), (''minor'', 1), (''major'', 0)])] g))"
proof -
  note th = offenses_by_type_grade_counts [of fixture]
  have f: "offenses_by_type_grade fixture =
       [(''11'', [(''warning'', 2), (''minor'', 0), (''major'', 1)]),
        (''12'', [(''warning'', 0), (''minor'', 1), (''major'', 0)])]"
    using th by blast
  then have m: "map_of (offenses_by_type_grade fixture) ''11''
     = Some [(''warning'', 2), (''minor'', 0), (''major'', 1)]" by simp
  from th m
  have t: "map_of [(''warning'', 2), (''minor'', 0), (''major'', 1)] t =
          (if t \<in> {''warning'', ''minor'', ''major''} \<or> 0 < type_grade_count fixture ''11'' t
           then Some (type_grade_count fixture ''11'' t) else None)" for t
    by blast
  from t [of "''warning''"] t [of "''minor''"] t [of "''major''"]
  have c1: "type_grade_count fixture ''11'' ''warning'' = 2"
    and c2: "type_grade_count fixture ''11'' ''minor'' = 0"
    and c3: "type_grade_count fixture ''11'' ''major'' = 1"
    by (simp_all split: if_splits)
  have c4: "type_grade_count fixture ''12'' ''minor'' = 1"
    by (simp add: fixture_type_counts)
  have z: "\<forall>g t. (g, t) \<notin> {(''11'', ''warning''), (''11'', ''major''), (''12'', ''minor'')}
          \<longrightarrow> type_grade_count fixture g t = 0"
    by (simp add: fixture_type_counts)
  from th c1 c3 c4 z
  have g: "\<forall>g. map_option map_of (map_of (offenses_by_type_grade fixture) g) =
          map_option map_of
            (map_of [(''11'', [(''warning'', 2), (''minor'', 0), (''major'', 1)]),
                     (''12'', [(''warning'', 0), (''minor'', 1), (''major'', 0)])] g)"
    by blast
  from z have c5: "type_grade_count fixture ''12'' ''warning'' = 0" by simp
  from m c1 c2 c3 c4 c5 g show ?thesis by blast
qed

text \<open>
  Claim C10. In the answer of either aggregate a grade is a key exactly when some stored
  offense belongs to a stored student of that grade, so a grade whose students have no
  offense is no key. Wherever a grade and a type (or a gender) have an offense, the count is
  under that key, whether or not the key is one of the zero-filled ones, and the zero-filled
  keys are there beside it.
\<close>

theorem aggregate_keys:
  "(g \<in> fst ` set (offenses_by_type_grade d)
      \<longleftrightarrow> (\<exists>s \<in> set (students_tbl d). \<exists>x \<in> set (offenses_tbl d).
             student_id x = s_id s \<and> grade_level s = g))
   \<and> (g \<in> fst ` set (offenses_by_gender_grade d)
      \<longleftrightarrow> (\<exists>s \<in> set (students_tbl d). \<exists>x \<in> set (offenses_tbl d).
             student_id x = s_id s \<and> grade_level s = g))
   \<and> (0 < type_grade_count d g t \<longrightarrow>
        (\<exists>c. map_of (offenses_by_type_grade d) g = Some c
            \<and> map_of c t = Some (type_grade_count d g t)
            \<and> {''warning'', ''minor'', ''major''} \<subseteq> fst ` set c))
   \<and> (0 < gender_grade_count d g x \<longrightarrow>
        (\<exists>c. map_of (offenses_by_gender_grade d) g = Some c
            \<and> map_of c x = Some (gender_grade_count d g x)
            \<and> {''Male'', ''Female''} \<subseteq> fst ` set c))"
proof -
  have k1: "g \<in> fst ` set (offenses_by_type_grade d)
      \<longleftrightarrow> (\<exists>s \<in> set (students_tbl d). \<exists>x \<in> set (offenses_tbl d).
             student_id x = s_id s \<and> grade_level s = g)"
    unfolding type_grade_keys_iff by metis
  have k2: "g \<in> fst ` set (offenses_by_gender_grade d)
      \<longleftrightarrow> (\<exists>s \<in> set (students_tbl d). \<exists>x \<in> set (offenses_tbl d).
             student_id x = s_id s \<and> grade_level s = g)"
    unfolding gender_grade_keys_iff by metis
  have t: "\<exists>c. map_of (offenses_by_type_grade d) g = Some c
            \<and> map_of c t = Some (type_grade_count d g t)
            \<and> {''warning'', ''minor'', ''major''} \<subseteq> fst ` set c"
    if p: "0 < type_grade_count d g t"
  proof -
    from type_grade_count_pos [OF p] have "g \<in> fst ` set (offenses_by_type_grade d)"
      unfolding type_grade_keys_iff .
    then obtain c where c: "map_of (offenses_by_type_grade d) g = Some c"
      by (cases "map_of (offenses_by_type_grade d) g") (auto simp: map_of_eq_None_iff)
    note l = type_counts_of_grade [OF c]
    have "k \<in> fst ` set c" if "k \<in> {''warning'', ''minor'', ''major''}" for k
    proof -
      from l [of k] that have "map_of c k \<noteq> None" by (auto split: if_splits)
      then show ?thesis by (simp add: map_of_eq_None_iff)
    qed
    with c l [of t] p show ?thesis by auto
  qed
  have u: "\<exists>c. map_of (offenses_by_gender_grade d) g = Some c
            \<and> map_of c x = Some (gender_grade_count d g x)
            \<and> {''Male'', ''Female''} \<subseteq> fst ` set c"
    if p: "0 < gender_grade_count d g x"
  proof -
    from gender_grade_count_pos [OF p] have "g \<in> fst ` set (offenses_by_gender_grade d)"
      unfolding gender_grade_keys_iff .
    then obtain c where c: "map_of (offenses_by_gender_grade d) g = Some c"
      by (cases "map_of (offenses_by_gender_grade d) g") (auto simp: map_of_eq_None_iff)
    note l = gender_counts_of_grade [OF c]
    have "k \<in> fst ` set c" if "k \<in> {''Male'', ''Female''}" for k
    proof -
      from l [of k] that have "map_of c k \<noteq> None" by (auto split: if_splits)
      then show ?thesis by (simp add: map_of_eq_None_iff)
    qed
    with c l [of x] p show ?thesis by auto
  qed
  from k1 k2 t u show ?thesis by blast
qed

theorem aggregate_keys_witness:
  "0 < type_grade_count fixture_odd ''12'' ''severe''
   \<and> 0 < gender_grade_count fixture_odd ''12'' ''Male''
   \<and> (\<exists>c. map_of (offenses_by_type_grade fixture_odd) ''12'' = Some c
          \<and> map_of c ''severe'' = Some 1
          \<and> {''warning'', ''minor'', ''major''} \<subseteq> fst ` set c)
   \<and> (\<exists>c. map_of (offenses_by_gender_grade fixture_odd) ''12'' = Some c
          \<and> map_of c ''Male'' = Some 2
          \<and> {''Male'', ''Female''} \<subseteq> fst ` set c)"
proof -
  have h1: "type_grade_count fixture_odd ''12'' ''severe'' = 1" by code_simp
  have h2: "gender_grade_count fixture_odd ''12'' ''Male'' = 2" by code_simp
  from aggregate_keys [of "''12''" fixture_odd "''severe''" "''Male''"] h1 h2
  show ?thesis by simp
qed

subsection \<open>The calendar view\<close>

lemma date_in_month:
  "date_key \<lparr>year = y, month = m, day = 1\<rparr> \<le> date_key dt
     \<and> date_key dt \<le> date_key \<lparr>year = y, month = m, day = l\<rparr>
   \<longleftrightarrow> year dt = y \<and> month dt = m \<and> 1 \<le> day dt \<and> day dt \<le> l"
  by (auto simp: date_key_def less_eq_prod_def)

lemma month_offenses_mset:
  "mset (month_offenses d i y m) =
     mset (filter (\<lambda>x. student_id x = i \<and> year (date x) = y \<and> month (date x) = m
                      \<and> 1 \<le> day (date x) \<and> day (date x) \<le> last_day_of y m) (offenses_tbl d))"
  unfolding month_offenses_def date_in_month by simp

lemma month_offenses_sorted:
  "sorted (map (\<lambda>x. date_key (date x)) (month_offenses d i y m))"
  unfolding month_offenses_def by (rule sorted_sort_key)

lemma month_offenses_set:
  "x \<in> set (month_offenses d i y m) \<Longrightarrow> year (date x) = y \<and> month (date x) = m"
proof -
  assume "x \<in> set (month_offenses d i y m)"
  then have "x \<in># mset (month_offenses d i y m)" by simp
  then show ?thesis unfolding month_offenses_mset by simp
qed

lemma month_offenses_days_sorted:
  "sorted (map (\<lambda>x. day (date x)) (month_offenses d i y m))"
proof -
  have "sorted_wrt (\<lambda>a b. date_key (date a) \<le> date_key (date b)) (month_offenses d i y m)"
    using month_offenses_sorted [of d i y m] by (simp add: sorted_map)
  then have "sorted_wrt (\<lambda>a b. day (date a) \<le> day (date b)) (month_offenses d i y m)"
  proof (rule sorted_wrt_mono_rel [rotated])
    fix a b
    assume "a \<in> set (month_offenses d i y m)" "b \<in> set (month_offenses d i y m)"
      and "date_key (date a) \<le> date_key (date b)"
    then show "day (date a) \<le> day (date b)"
      using month_offenses_set [of a d i y m] month_offenses_set [of b d i y m]
      by (auto simp: date_key_def less_eq_prod_def)
  qed
  then show ?thesis by (simp add: sorted_map)
qed

lemma append_detail_lookup:
  "map_of (append_detail x od) dd =
     (if dd = day (date x)
      then Some ((case map_of od dd of None \<Rightarrow> [] | Some l \<Rightarrow> l) @ [detail x])
      else map_of od dd)"
  by (simp add: append_detail_def update_conv')

lemma fold_append_detail_lookup:
  "map_of (fold append_detail xs od) dd =
     (if filter (\<lambda>x. day (date x) = dd) xs = [] then map_of od dd
      else Some ((case map_of od dd of None \<Rightarrow> [] | Some l \<Rightarrow> l)
                 @ map detail (filter (\<lambda>x. day (date x) = dd) xs)))"
proof (induction xs arbitrary: od)
  case Nil
  show ?case by simp
next
  case (Cons x xs)
  show ?case
    by (cases "day (date x) = dd") (simp_all add: Cons.IH append_detail_lookup)
qed

lemma append_detail_keys:
  "map fst (append_detail x od) =
     (if day (date x) \<in> set (map fst od) then map fst od else map fst od @ [day (date x)])"
  by (simp add: append_detail_def update_keys)

lemma fold_append_detail_keys_sorted:
  assumes "sorted (map (\<lambda>x. day (date x)) xs)" "sorted_wrt (<) (map fst od)"
    "\<forall>k \<in> set (map fst od). \<forall>x \<in> set xs. k \<le> day (date x)"
  shows "sorted_wrt (<) (map fst (fold append_detail xs od))"
  using assms
proof (induction xs arbitrary: od)
  case Nil
  then show ?case by simp
next
  case (Cons x xs)
  have "k < day (date x)" if "day (date x) \<notin> set (map fst od)" "k \<in> set (map fst od)" for k
  proof -
    from Cons.prems(3) that(2) have "k \<le> day (date x)" by auto
    moreover from that have "k \<noteq> day (date x)" by blast
    ultimately show ?thesis by simp
  qed
  then have s: "sorted_wrt (<) (map fst (append_detail x od))"
    using Cons.prems(2) by (simp add: append_detail_keys sorted_wrt_append)
  have b: "\<forall>k \<in> set (map fst (append_detail x od)). \<forall>z \<in> set xs. k \<le> day (date z)"
    using Cons.prems(1,3) by (auto simp: append_detail_keys)
  from Cons.prems(1) have "sorted (map (\<lambda>x. day (date x)) xs)" by simp
  from Cons.IH [OF this s b] show ?case by simp
qed

lemma dec_one: "n < 10 \<Longrightarrow> dec n = [digit n]"
  by (simp add: dec.simps [of n])

lemma dec_two: "10 \<le> n \<Longrightarrow> n < 100 \<Longrightarrow> dec n = [digit (n div 10), digit n]"
  by (simp add: dec.simps [of n] dec_one)

lemma dec_three: "100 \<le> n \<Longrightarrow> n < 1000 \<Longrightarrow> dec n = [digit (n div 100), digit (n div 10), digit n]"
  by (simp add: dec.simps [of n] dec_two div_mult2_eq [symmetric])

lemma dec_four:
  "1000 \<le> n \<Longrightarrow> n < 10000 \<Longrightarrow>
     dec n = [digit (n div 1000), digit (n div 100), digit (n div 10), digit n]"
  by (simp add: dec.simps [of n] dec_three div_mult2_eq [symmetric])

lemma dec_short: "n < 1000 \<Longrightarrow> length (dec n) < 4"
proof -
  assume "n < 1000"
  then consider "n < 10" | "10 \<le> n" "n < 100" | "100 \<le> n" "n < 1000" by linarith
  then show ?thesis by cases (simp_all add: dec_one dec_two dec_three)
qed

lemma digit_zero: "digit 0 = CHR ''0''"
  by code_simp

lemma zfill_two: "n < 100 \<Longrightarrow> zfill 2 (dec n) = [digit (n div 10), digit n]"
proof (cases "n < 10")
  case True
  then show ?thesis by (simp add: zfill_def dec_one digit_zero)
next
  case False
  assume "n < 100"
  with False show ?thesis by (simp add: zfill_def dec_two)
qed

lemma last_day_of_le:
  assumes "m \<le> 12"
  shows "last_day_of y m \<le> 31"
proof -
  show ?thesis
  proof (cases "m = 2")
    case True
    then show ?thesis by (simp add: last_day_of_def mdays_def)
  next
    case False
    from assms have "mdays ! m \<in> set mdays" by (intro nth_mem) (simp add: mdays_def)
    moreover have "\<forall>k \<in> set mdays. k \<le> 31" by (simp add: mdays_def)
    ultimately have "mdays ! m \<le> 31" by blast
    with False show ?thesis by (simp add: last_day_of_def)
  qed
qed

text \<open>The date of an offense of the month, as \<open>strftime\<close> prints it.\<close>

lemma strftime_ymd_month_offense:
  assumes "x \<in> set (month_offenses d i y m)" and "m \<le> 12"
  shows "strftime_ymd (date x) =
           dec y @ ''-'' @ [digit (m div 10), digit m]
           @ ''-'' @ [digit (day (date x) div 10), digit (day (date x))]"
proof -
  from assms(1) have "x \<in># mset (month_offenses d i y m)" by simp
  then have x: "year (date x) = y" "month (date x) = m" "day (date x) \<le> last_day_of y m"
    unfolding month_offenses_mset by simp_all
  from x(3) last_day_of_le [OF assms(2), of y] have "day (date x) < 100" by simp
  moreover from assms(2) have "m < 100" by simp
  ultimately show ?thesis by (simp add: strftime_ymd_def x(1,2) zfill_two)
qed

lemma calendar_view_ok:
  assumes "get_student d i = Some st" and "1 \<le> y" "y \<le> 9999"
  shows "calendar_view now i (Some (int y)) marg d =
     Inr (let mo = (case marg of None \<Rightarrow> int (month now) | Some m \<Rightarrow> m);
              m = nat (if mo < 1 \<or> mo > 12 then int (month now) else mo)
          in \<lparr>cal_student = st, cal_year = y, cal_month = m,
                         cal_month_name = month_names ! m,
                         offense_dates = fold append_detail (month_offenses d i y m) [],
                         prev_month = (if m > 1 then m - 1 else 12),
                         prev_year = (if m > 1 then y else y - 1),
                         next_month = (if m < 12 then m + 1 else 1),
                         next_year = (if m < 12 then y else y + 1)\<rparr>)"
  using assms by (simp add: calendar_view_def Let_def)

text \<open>
  Claim C5, as the code has it. For a stored student and a year within 1 to 9999, a month
  parameter outside 1 to 12 gives the page of the current month: the same page as with the
  current month as parameter, and as with no month parameter.
\<close>

theorem calendar_view_month_fallback:
  assumes "get_student d i = Some st" and "1 \<le> y" "y \<le> 9999" and "m < 1 \<or> 12 < m"
  shows "\<exists>pg. calendar_view now i (Some (int y)) (Some m) d = Inr pg
           \<and> cal_student pg = st \<and> cal_year pg = y \<and> cal_month pg = month now
           \<and> offense_dates pg = fold append_detail (month_offenses d i y (month now)) []
           \<and> calendar_view now i (Some (int y)) (Some (int (month now))) d = Inr pg
           \<and> calendar_view now i (Some (int y)) None d = Inr pg"
  using assms(4)
  by (auto simp: calendar_view_ok [OF assms(1-3)] Let_def)

theorem calendar_view_month_fallback_witness:
  "get_student fixture 1 = Some ana \<and> (1::nat) \<le> 2024 \<and> (2024::nat) \<le> 9999
   \<and> ((13::int) < 1 \<or> 12 < (13::int))
   \<and> (\<exists>pg. calendar_view \<lparr>year = 2024, month = 3, day = 9\<rparr> 1 (Some 2024) (Some 13) fixture = Inr pg
          \<and> cal_month pg = 3
          \<and> calendar_view \<lparr>year = 2024, month = 3, day = 9\<rparr> 1 (Some 2024) (Some 3) fixture = Inr pg)"
proof -
  have g: "get_student fixture 1 = Some ana"
    by (simp add: get_student_def fixture_def ana_def)
  from calendar_view_month_fallback [OF g, of 2024 13 "\<lparr>year = 2024, month = 3, day = 9\<rparr>"] g
  show ?thesis by auto
qed

text \<open>A year outside 1 to 9999 is a \<open>ValueError\<close> whatever the month, and a student that
  is not stored is a 404.\<close>

theorem calendar_view_fallback_counterexample:
  "calendar_view \<lparr>year = 2024, month = 3, day = 9\<rparr> 1 (Some 0) (Some 13) fixture = Inl ValueError
   \<and> calendar_view \<lparr>year = 2024, month = 3, day = 9\<rparr> 7 (Some 2024) (Some 13) fixture
       = Inl NotFoundError"
  by (simp add: calendar_view_def get_student_def fixture_def ana_def ben_def)

text \<open>
  Claim C6, as the code has it. For a stored student, a year within 1 to 9999 and a month
  within 1 to 12, the page holds the offenses of that student dated in that month, first
  day to last day, in ascending date: \<open>offense_dates\<close> maps each day that has one, in
  ascending order of days, to the details of its offenses in that order. A detail is
  \<open>Type - description (Y-MM-DD)\<close>, with a hyphen, the type capitalised,
  \<open>No description\<close> for a description that is missing or empty, and the date as
  \<open>strftime\<close> prints it: the year in decimal, which is four digits from the year 1000 on
  and fewer below, then month and day on two digits.
\<close>

theorem calendar_view_month:
  assumes "get_student d i = Some st" and "1 \<le> y" "y \<le> 9999" and "1 \<le> m" "m \<le> 12"
  shows "\<exists>pg. calendar_view now i (Some (int y)) (Some (int m)) d = Inr pg
           \<and> cal_student pg = st \<and> cal_year pg = y \<and> cal_month pg = m
           \<and> offense_dates pg = fold append_detail (month_offenses d i y m) []
           \<and> (\<forall>dd. map_of (offense_dates pg) dd =
                 (if filter (\<lambda>x. day (date x) = dd) (month_offenses d i y m) = [] then None
                  else Some (map detail (filter (\<lambda>x. day (date x) = dd) (month_offenses d i y m)))))
           \<and> sorted_wrt (<) (map fst (offense_dates pg))
           \<and> sorted (map (\<lambda>x. date_key (date x)) (month_offenses d i y m))
           \<and> mset (month_offenses d i y m) =
               mset (filter (\<lambda>x. student_id x = i \<and> year (date x) = y \<and> month (date x) = m
                               \<and> 1 \<le> day (date x) \<and> day (date x) \<le> last_day_of y m)
                      (offenses_tbl d))
           \<and> (\<forall>x \<in> set (month_offenses d i y m). detail x =
                 capitalize (offense_type x) @ '' - ''
                 @ (case description x of None \<Rightarrow> ''No description''
                    | Some t \<Rightarrow> if t = [] then ''No description'' else t)
                 @ '' ('' @ dec y @ ''-'' @ [digit (m div 10), digit m]
                 @ ''-'' @ [digit (day (date x) div 10), digit (day (date x))] @ '')'')
           \<and> (1000 \<le> y \<longrightarrow> dec y = [digit (y div 1000), digit (y div 100), digit (y div 10), digit y])
           \<and> (y < 1000 \<longrightarrow> length (dec y) < 4)"
proof -
  define pg where "pg = \<lparr>cal_student = st, cal_year = y, cal_month = m,
                         cal_month_name = month_names ! m,
                         offense_dates = fold append_detail (month_offenses d i y m) [],
                         prev_month = (if m > 1 then m - 1 else 12),
                         prev_year = (if m > 1 then y else y - 1),
                         next_month = (if m < 12 then m + 1 else 1),
                         next_year = (if m < 12 then y else y + 1)\<rparr>"
  have r: "calendar_view now i (Some (int y)) (Some (int m)) d = Inr pg"
    using assms(4,5) by (simp add: calendar_view_ok [OF assms(1-3)] Let_def pg_def)
  have f: "cal_student pg = st" "cal_year pg = y" "cal_month pg = m"
    "offense_dates pg = fold append_detail (month_offenses d i y m) []"
    by (simp_all add: pg_def)
  have l: "\<forall>dd. map_of (offense_dates pg) dd =
                 (if filter (\<lambda>x. day (date x) = dd) (month_offenses d i y m) = [] then None
                  else Some (map detail (filter (\<lambda>x. day (date x) = dd) (month_offenses d i y m))))"
    by (simp add: f(4) fold_append_detail_lookup)
  have k: "sorted_wrt (<) (map fst (offense_dates pg))"
    unfolding f(4)
    by (rule fold_append_detail_keys_sorted [OF month_offenses_days_sorted]) simp_all
  have dt: "\<forall>x \<in> set (month_offenses d i y m). detail x =
                 capitalize (offense_type x) @ '' - ''
                 @ (case description x of None \<Rightarrow> ''No description''
                    | Some t \<Rightarrow> if t = [] then ''No description'' else t)
                 @ '' ('' @ dec y @ ''-'' @ [digit (m div 10), digit m]
                 @ ''-'' @ [digit (day (date x) div 10), digit (day (date x))] @ '')''"
    by (simp add: detail_def strftime_ymd_month_offense [OF _ assms(5)])
  have y4: "1000 \<le> y \<longrightarrow> dec y = [digit (y div 1000), digit (y div 100), digit (y div 10), digit y]"
    using assms(3) by (simp add: dec_four)
  have y3: "y < 1000 \<longrightarrow> length (dec y) < 4" by (simp add: dec_short)
  from r f l k month_offenses_sorted [of d i y m] month_offenses_mset [of d i y m] dt y4 y3
  show ?thesis by blast
qed

theorem calendar_view_month_witness:
  "get_student fixture 1 = Some ana \<and> (1::nat) \<le> 2024 \<and> (2024::nat) \<le> 9999
   \<and> (1::nat) \<le> 3 \<and> (3::nat) \<le> 12
   \<and> (\<exists>pg. calendar_view \<lparr>year = 2024, month = 4, day = 9\<rparr> 1 (Some 2024) (Some 3) fixture = Inr pg
          \<and> map_of (offense_dates pg) 5 =
               Some [''Warning - No necktie (2024-03-05)'', ''Warning - No description (2024-03-05)'']
          \<and> map_of (offense_dates pg) 6 = None)
   \<and> dec 2024 = ''2024''
   \<and> get_student fixture_old 1 = Some ana \<and> (1::nat) \<le> 999 \<and> (999::nat) < 1000
   \<and> (\<exists>pg. calendar_view \<lparr>year = 2024, month = 4, day = 9\<rparr> 1 (Some 999) (Some 1) fixture_old = Inr pg
          \<and> map_of (offense_dates pg) 5 = Some [''Warning - Old entry (999-01-05)''])
   \<and> length (dec 999) < 4"
proof -
  have g: "get_student fixture 1 = Some ana"
    by (simp add: get_student_def fixture_def ana_def)
  have e: "map detail (filter (\<lambda>x. day (date x) = 5) (month_offenses fixture 1 2024 3)) =
        [''Warning - No necktie (2024-03-05)'', ''Warning - No description (2024-03-05)'']"
    by code_simp
  have n: "filter (\<lambda>x. day (date x) = 6) (month_offenses fixture 1 2024 3) = []"
    by code_simp
  from e have ne: "filter (\<lambda>x. day (date x) = 5) (month_offenses fixture 1 2024 3) \<noteq> []"
    by auto
  have dg: "[digit (2024 div 1000), digit (2024 div 100), digit (2024 div 10), digit 2024] = ''2024''"
    by code_simp
  from calendar_view_month [OF g, of 2024 3 "\<lparr>year = 2024, month = 4, day = 9\<rparr>"]
  obtain pg where
    "calendar_view \<lparr>year = 2024, month = 4, day = 9\<rparr> 1 (Some 2024) (Some 3) fixture = Inr pg"
    "\<forall>dd. map_of (offense_dates pg) dd =
                 (if filter (\<lambda>x. day (date x) = dd) (month_offenses fixture 1 2024 3) = [] then None
                  else Some (map detail (filter (\<lambda>x. day (date x) = dd) (month_offenses fixture 1 2024 3))))"
    "dec 2024 = [digit (2024 div 1000), digit (2024 div 100), digit (2024 div 10), digit 2024]"
    by auto
  with g e n ne dg have new: "(\<exists>pg. calendar_view \<lparr>year = 2024, month = 4, day = 9\<rparr> 1 (Some 2024) (Some 3) fixture = Inr pg
          \<and> map_of (offense_dates pg) 5 =
               Some [''Warning - No necktie (2024-03-05)'', ''Warning - No description (2024-03-05)'']
          \<and> map_of (offense_dates pg) 6 = None)
   \<and> dec 2024 = ''2024''"
    by auto
  have go: "get_student fixture_old 1 = Some ana"
    by (simp add: get_student_def fixture_old_def ana_def)
  have eo: "map detail (filter (\<lambda>x. day (date x) = 5) (month_offenses fixture_old 1 999 1)) =
        [''Warning - Old entry (999-01-05)'']"
    by code_simp
  from eo have neo: "filter (\<lambda>x. day (date x) = 5) (month_offenses fixture_old 1 999 1) \<noteq> []"
    by auto
  from calendar_view_month [OF go, of 999 1 "\<lparr>year = 2024, month = 4, day = 9\<rparr>"]
  obtain pg where
    "calendar_view \<lparr>year = 2024, month = 4, day = 9\<rparr> 1 (Some 999) (Some 1) fixture_old = Inr pg"
    "\<forall>dd. map_of (offense_dates pg) dd =
                 (if filter (\<lambda>x. day (date x) = dd) (month_offenses fixture_old 1 999 1) = [] then None
                  else Some (map detail (filter (\<lambda>x. day (date x) = dd) (month_offenses fixture_old 1 999 1))))"
    "length (dec 999) < 4"
    by auto
  with go eo neo have old: "(\<exists>pg. calendar_view \<lparr>year = 2024, month = 4, day = 9\<rparr> 1 (Some 999) (Some 1) fixture_old = Inr pg
          \<and> map_of (offense_dates pg) 5 = Some [''Warning - Old entry (999-01-05)''])
   \<and> length (dec 999) < 4"
    by auto
  from g go new old show ?thesis by simp
qed

text \<open>The detail has a hyphen where the specification has a dash, the date of an offense of
  the year 999 is printed \<open>999-01-05\<close>, and a student that is not stored is a 404.\<close>

theorem calendar_view_detail_counterexample:
  "map_sum id offense_dates
     (calendar_view \<lparr>year = 2024, month = 4, day = 9\<rparr> 1 (Some 2024) (Some 3) fixture)
     = Inr [(5, [''Warning - No necktie (2024-03-05)'', ''Warning - No description (2024-03-05)'']),
            (31, [''Major - No description (2024-03-31)''])]
   \<and> ''Warning - No necktie (2024-03-05)''
       \<noteq> ''Warning '' @ [CHR 0xE2, CHR 0x80, CHR 0x94] @ '' No necktie (2024-03-05)''
   \<and> map_sum id offense_dates
     (calendar_view \<lparr>year = 2024, month = 4, day = 9\<rparr> 1 (Some 999) (Some 1) fixture_old)
     = Inr [(5, [''Warning - Old entry (999-01-05)''])]
   \<and> calendar_view \<lparr>year = 2024, month = 4, day = 9\<rparr> 7 (Some 2024) (Some 3) fixture
       = Inl NotFoundError"
proof -
  have a: "map_sum id offense_dates
     (calendar_view \<lparr>year = 2024, month = 4, day = 9\<rparr> 1 (Some 2024) (Some 3) fixture)
     = Inr [(5, [''Warning - No necktie (2024-03-05)'', ''Warning - No description (2024-03-05)'']),
            (31, [''Major - No description (2024-03-31)''])]"
    by code_simp
  have b: "''Warning - No necktie (2024-03-05)''
       \<noteq> ''Warning '' @ [CHR 0xE2, CHR 0x80, CHR 0x94] @ '' No necktie (2024-03-05)''"
    by simp
  have o: "map_sum id offense_dates
     (calendar_view \<lparr>year = 2024, month = 4, day = 9\<rparr> 1 (Some 999) (Some 1) fixture_old)
     = Inr [(5, [''Warning - Old entry (999-01-05)''])]"
    by code_simp
  have c: "calendar_view \<lparr>year = 2024, month = 4, day = 9\<rparr> 7 (Some 2024) (Some 3) fixture
       = Inl NotFoundError"
    by (simp add: calendar_view_def get_student_def fixture_def ana_def ben_def)
  from a b o c show ?thesis by blast
qed

subsection \<open>The search\<close>

lemma of_char_lower_char:
  "(of_char (lower_char c) :: nat) =
     (if 65 \<le> (of_char c :: nat) \<and> (of_char c :: nat) \<le> 90 then of_char c + 32 else of_char c)"
  by (simp add: lower_char_def)

lemma lower_char_idem: "lower_char (lower_char c) = lower_char c"
proof -
  have "(of_char (lower_char (lower_char c)) :: nat) = of_char (lower_char c)"
    by (simp add: of_char_lower_char)
  then show ?thesis by simp
qed

lemma lower_char_percent: "lower_char c = CHR ''%'' \<longleftrightarrow> c = CHR ''%''"
proof -
  have "lower_char c = CHR ''%'' \<longleftrightarrow> (of_char (lower_char c) :: nat) = of_char (CHR ''%'')"
    by (simp only: of_char_eq_iff)
  also have "\<dots> \<longleftrightarrow> (of_char c :: nat) = of_char (CHR ''%'')"
    by (simp add: of_char_lower_char)
  also have "\<dots> \<longleftrightarrow> c = CHR ''%''" by (simp only: of_char_eq_iff)
  finally show ?thesis .
qed

lemma lower_char_underscore: "lower_char c = CHR ''_'' \<longleftrightarrow> c = CHR ''_''"
proof -
  have "lower_char c = CHR ''_'' \<longleftrightarrow> (of_char (lower_char c) :: nat) = of_char (CHR ''_'')"
    by (simp only: of_char_eq_iff)
  also have "\<dots> \<longleftrightarrow> (of_char c :: nat) = of_char (CHR ''_'')"
    by (simp add: of_char_lower_char)
  also have "\<dots> \<longleftrightarrow> c = CHR ''_''" by (simp only: of_char_eq_iff)
  finally show ?thesis .
qed

lemma like_percent: "like ''%'' s"
  by (induction s) simp_all

text \<open>A pattern without wildcards followed by \<open>%\<close> matches the strings it is a prefix of.\<close>

lemma like_prefix:
  assumes "CHR ''%'' \<notin> set t" "CHR ''_'' \<notin> set t"
  shows "like (t @ ''%'') s \<longleftrightarrow> prefix (map lower_char t) (map lower_char s)"
  using assms
proof (induction t arbitrary: s)
  case Nil
  show ?case by (simp add: like_percent)
next
  case (Cons p ps)
  show ?case
  proof (cases s)
    case Nil
    with Cons.prems show ?thesis by auto
  next
    case (Cons c cs)
    with Cons.prems Cons.IH [of cs] show ?thesis by auto
  qed
qed

text \<open>\<open>%\<close>, a pattern without wildcards and \<open>%\<close> match the strings that contain it.\<close>

lemma like_contains:
  assumes "CHR ''%'' \<notin> set t" "CHR ''_'' \<notin> set t"
  shows "like (''%'' @ t @ ''%'') s \<longleftrightarrow> sublist (map lower_char t) (map lower_char s)"
proof (induction s)
  case Nil
  have "like (t @ ''%'') [] \<longleftrightarrow> t = []" using like_prefix [OF assms, of "[]"] by simp
  then show ?case by simp
next
  case (Cons c cs)
  have "like (''%'' @ t @ ''%'') (c # cs)
        \<longleftrightarrow> like (t @ ''%'') (c # cs) \<or> like (''%'' @ t @ ''%'') cs" by simp
  also have "\<dots> \<longleftrightarrow> prefix (map lower_char t) (map lower_char (c # cs))
                 \<or> sublist (map lower_char t) (map lower_char cs)"
    by (simp only: like_prefix [OF assms] Cons.IH)
  also have "\<dots> \<longleftrightarrow> sublist (map lower_char t) (map lower_char (c # cs))"
    by (simp add: sublist_Cons_right)
  finally show ?case .
qed

lemma ilike_contains:
  assumes "CHR ''%'' \<notin> set t" "CHR ''_'' \<notin> set t"
  shows "ilike txt (''%'' @ t @ ''%'') \<longleftrightarrow> contains_ci t txt"
proof -
  have p: "lower (''%'' @ t @ ''%'') = ''%'' @ lower t @ ''%''"
    by (simp add: lower_def lower_char_def)
  have w: "CHR ''%'' \<notin> set (lower t)" "CHR ''_'' \<notin> set (lower t)"
  proof -
    show "CHR ''%'' \<notin> set (lower t)"
    proof
      assume "CHR ''%'' \<in> set (lower t)"
      then obtain x where "x \<in> set t" "lower_char x = CHR ''%''" by (auto simp: lower_def)
      with assms(1) show False by (simp add: lower_char_percent)
    qed
    show "CHR ''_'' \<notin> set (lower t)"
    proof
      assume "CHR ''_'' \<in> set (lower t)"
      then obtain x where "x \<in> set t" "lower_char x = CHR ''_''" by (auto simp: lower_def)
      with assms(2) show False by (simp add: lower_char_underscore)
    qed
  qed
  have i: "map lower_char (lower u) = lower u" for u
    by (simp add: lower_def lower_char_idem)
  show ?thesis
    unfolding ilike_def p like_contains [OF w] contains_ci_def i ..
qed

text \<open>For a term without \<open>%\<close> and \<open>_\<close> the filter of the query is the criterion of the
  specification.\<close>

lemma search_filter_spec:
  assumes "CHR ''%'' \<notin> set t" "CHR ''_'' \<notin> set t"
  shows "search_filter t row = spec_search_filter t row"
  by (cases row; cases "description (fst row)")
     (simp_all add: search_filter_def spec_search_filter_def ilike_opt_def
        ilike_contains [OF assms, simplified])

lemma search_query_sorted:
  "sorted_wrt (\<lambda>a b. date_key (date b) \<le> date_key (date a)) (search_query t d)"
proof -
  have "sorted (map (\<lambda>x. date_key (date x)) (rev (search_query t d)))"
    unfolding search_query_def rev_rev_ident by (rule sorted_sort_key)
  then have "sorted_wrt (\<lambda>a b. date_key (date a) \<le> date_key (date b)) (rev (search_query t d))"
    by (simp add: sorted_map)
  then show ?thesis by (simp add: sorted_wrt_rev)
qed

lemma search_query_mset:
  "mset (search_query t d) =
     mset (map fst (if t \<noteq> [] then filter (search_filter t) (offense_join_student d)
                    else offense_join_student d))"
  unfolding search_query_def by simp

lemma paginate_items:
  "items (paginate pg pp rows) = take pp (drop ((nat (max 1 pg) - 1) * pp) rows)"
  by (simp add: paginate_def Let_def max_def)

text \<open>
  What \<open>all_offenses\<close> does for a term that has neither \<open>%\<close> nor \<open>_\<close>: the rows of the
  query are the offenses that meet the criterion of the specification, each joined to its
  student, in descending date; a page is twenty of them, page 1 the first twenty, a page
  number below 1 is page 1, and a page beyond the last is empty.
\<close>

lemma all_offenses_without_wildcards:
  assumes "t = strip (case sa of None \<Rightarrow> [] | Some u \<Rightarrow> u)" and "t \<noteq> []"
    and "CHR ''%'' \<notin> set t" "CHR ''_'' \<notin> set t"
    and "p = nat (max 1 (case pa of None \<Rightarrow> 1 | Some q \<Rightarrow> q))"
  shows "items (fst (all_offenses sa pa d)) = take 20 (drop ((p - 1) * 20) (search_query t d))"
    and "snd (all_offenses sa pa d) = t"
    and "mset (search_query t d) =
           mset (map fst (filter (spec_search_filter t) (offense_join_student d)))"
    and "sorted_wrt (\<lambda>a b. date_key (date b) \<le> date_key (date a)) (search_query t d)"
    and "length (search_query t d) \<le> (p - 1) * 20 \<Longrightarrow> items (fst (all_offenses sa pa d)) = []"
proof -
  show i: "items (fst (all_offenses sa pa d)) = take 20 (drop ((p - 1) * 20) (search_query t d))"
    by (simp add: all_offenses_def Let_def paginate_items assms(1,5))
  show "snd (all_offenses sa pa d) = t"
    by (simp add: all_offenses_def Let_def assms(1))
  have "filter (search_filter t) (offense_join_student d)
        = filter (spec_search_filter t) (offense_join_student d)"
    by (rule filter_cong) (simp_all add: search_filter_spec [OF assms(3,4)])
  then show "mset (search_query t d) =
           mset (map fst (filter (spec_search_filter t) (offense_join_student d)))"
    using assms(2) by (simp add: search_query_mset)
  show "sorted_wrt (\<lambda>a b. date_key (date b) \<le> date_key (date a)) (search_query t d)"
    by (rule search_query_sorted)
  show "items (fst (all_offenses sa pa d)) = []" if "length (search_query t d) \<le> (p - 1) * 20"
    using that by (simp add: i)
qed

text \<open>
  Claim C3 fails on the code for a term with a wildcard. With the term \<open>_\<close> the query
  answers every offense of the fixture, and no name, description or type of the fixture
  contains an underscore: the term reaches \<open>LIKE\<close> unescaped.
\<close>

theorem all_offenses_underscore:
  "map o_id (items (fst (all_offenses (Some ''_'') (Some 1) fixture))) = [4, 3, 1, 2]
   \<and> filter (spec_search_filter ''_'') (offense_join_student fixture) = []
   \<and> map o_id (items (fst (all_offenses (Some ''smith'') (Some 1) fixture))) = [3, 1, 2]
   \<and> items (fst (all_offenses (Some ''smith'') (Some 2) fixture)) = []"
proof -
  have a: "map o_id (items (fst (all_offenses (Some ''_'') (Some 1) fixture))) = [4, 3, 1, 2]"
    by code_simp
  have b: "filter (spec_search_filter ''_'') (offense_join_student fixture) = []"
    by code_simp
  have c: "map o_id (items (fst (all_offenses (Some ''smith'') (Some 1) fixture))) = [3, 1, 2]"
    by code_simp
  have e: "items (fst (all_offenses (Some ''smith'') (Some 2) fixture)) = []"
    by code_simp
  from a b c e show ?thesis by blast
qed

end
